theory Spec2Isabelle
  imports Complex_Main "HOL-Library.Multiset" "HOL-Library.Sublist"
begin

section \<open>Python and tensor primitives used by the model code\<close>

text \<open>
  Exceptions of the Python run time are values: every operation that can raise returns
  \<open>error + 'a\<close>, with \<open>Inl\<close> the exception.
\<close>

datatype error = IndexError | ValueError | RuntimeError | UnboundLocalError

text \<open>
  A two-dimensional tensor of shape \<open>(n, D)\<close> is the list of its \<open>n\<close> rows; a row is a
  vector of a real vector space \<open>'e\<close> (the hidden dimension \<open>D\<close> is the same for every tensor
  the model builds, so rows of different width are excluded by the type). Token ids,
  attention masks and labels are lists of integers.
\<close>

subsection \<open>The shared pseudo-random source\<close>

text \<open>
  The module-level generator of \<open>random\<close> is explicit state: the sequence of raw draws
  and the position of the next one. \<open>randbelow n\<close> is \<open>Random._randbelow\<close>: a number in
  \<open>[0, n)\<close>; \<open>random.randint(0, 199)\<close> is \<open>randbelow 200\<close>.
\<close>

record rng =
  draws :: "nat \<Rightarrow> nat"
  pos :: nat

definition randbelow :: "nat \<Rightarrow> rng \<Rightarrow> nat \<times> rng" where
  "randbelow n g = (draws g (pos g) mod n, g\<lparr>pos := Suc (pos g)\<rparr>)"

text \<open>
  \<open>random.shuffle(x)\<close>:
  \<^verbatim>\<open>for i in reversed(range(1, len(x))): j = randbelow(i + 1); x[i], x[j] = x[j], x[i]\<close>
\<close>

fun shuffle_from :: "nat \<Rightarrow> 'a list \<Rightarrow> rng \<Rightarrow> 'a list \<times> rng" where
  "shuffle_from 0 x g = (x, g)"
| "shuffle_from (Suc i) x g =
     (case randbelow (Suc i + 1) g of
        (j, g') \<Rightarrow> shuffle_from i (x[Suc i := x ! j, j := x ! Suc i]) g')"

definition shuffle :: "'a list \<Rightarrow> rng \<Rightarrow> 'a list \<times> rng" where
  "shuffle x g = shuffle_from (length x - 1) x g"

subsection \<open>Indexing and strided assignment\<close>

text \<open>\<open>torch.where(scene_mask == 1)[0].tolist()\<close>: the positions holding 1, ascending.\<close>

definition where_eq_1 :: "int list \<Rightarrow> nat list" where
  "where_eq_1 scene_mask = filter (\<lambda>i. scene_mask ! i = 1) [0..<length scene_mask]"

text \<open>\<open>t[ids]\<close> for a list of non-negative indices: the rows in the order of \<open>ids\<close>;
  an index past the end raises.\<close>

definition index_rows :: "'a list \<Rightarrow> nat list \<Rightarrow> error + 'a list" where
  "index_rows t ids =
     (if list_all (\<lambda>i. i < length t) ids then Inr (map (\<lambda>i. t ! i) ids) else Inl IndexError)"

text \<open>\<open>t[i]\<close> for one non-negative index.\<close>

definition index_row :: "'a list \<Rightarrow> nat \<Rightarrow> error + 'a" where
  "index_row t i = (if i < length t then Inr (t ! i) else Inl IndexError)"

text \<open>\<open>t[a:b]\<close> for non-negative bounds: Python clamps a slice to the length.\<close>

definition slice :: "'a list \<Rightarrow> nat \<Rightarrow> nat \<Rightarrow> 'a list" where
  "slice t a b = take (b - a) (drop a t)"

text \<open>The number of rows \<open>t[off::w]\<close> selects in a tensor of \<open>len\<close> rows.\<close>

definition slice_count :: "nat \<Rightarrow> nat \<Rightarrow> nat \<Rightarrow> nat" where
  "slice_count len off w = (if off < len then (len - off + w - 1) div w else 0)"

text \<open>
  \<open>t[off::w, :] = src\<close>: row \<open>off + k * w\<close> of \<open>t\<close> becomes row \<open>k\<close> of \<open>src\<close>. The source
  must have as many rows as the slice, or one row (which is broadcast); otherwise torch
  raises a RuntimeError.
\<close>

definition set_strided :: "'a list \<Rightarrow> nat \<Rightarrow> nat \<Rightarrow> 'a list \<Rightarrow> error + 'a list" where
  "set_strided t off w src =
     (let cnt = slice_count (length t) off w in
      if length src = cnt \<or> length src = 1 then
        Inr (map (\<lambda>i. if off \<le> i \<and> (i - off) mod w = 0
                       then (if length src = cnt then src ! ((i - off) div w) else src ! 0)
                       else t ! i) [0..<length t])
      else Inl RuntimeError)"

text \<open>Sequencing of operations that can raise.\<close>

definition bind :: "error + 'a \<Rightarrow> ('a \<Rightarrow> error + 'b) \<Rightarrow> error + 'b" where
  "bind m f = (case m of Inl e \<Rightarrow> Inl e | Inr x \<Rightarrow> f x)"

section \<open>The model object\<close>

text \<open>
  The attributes of \<open>Chat3D\<close> that the modelled methods read. The tokenizer and the
  embedding table belong to the external language model: the table is the list of its
  rows (\<open>embed_tokens.weight\<close>), the tokenizer a function from text to token ids and
  attention mask.
\<close>

text \<open>
  A Python \<open>str\<close> is a sequence of Unicode code points. \<open>of_ascii\<close> reads an ASCII
  literal as such a sequence.
\<close>

type_synonym pystr = "nat list"

definition of_ascii :: "string \<Rightarrow> pystr" where
  "of_ascii s = map of_char s"

record tokenized =
  input_ids :: "int list"
  attention_mask :: "int list"

record 'e chat3d =
  weight :: "'e list"
  llama_tokenizer :: "pystr \<Rightarrow> tokenized"
  pad_token_id :: int
  ori_vocab_size :: int
  objid_start_idx :: nat
  objid_end_idx :: nat
  train_emb :: bool
  add_img_token :: bool
  add_scene_token :: bool
  end_sym :: pystr
  role_1 :: pystr
  p_0_embed :: "'e list"
  p_1_embed :: "'e list"

text \<open>\<open>detach\<close> cuts the gradient graph; the values are unchanged.\<close>

definition detach :: "'a \<Rightarrow> 'a" where
  "detach x = x"

section \<open>Object token interleaver\<close>

text \<open>
  \<open>get_object_list_embed\<close>. The local variable \<open>object_list_embed\<close> is \<open>None\<close> while
  unbound. The block for a single valid object is built first and not returned; the four
  layout tests that follow are each executed, and each that holds rebinds the variable.
\<close>

definition single_block :: "'e chat3d \<Rightarrow> 'e list \<Rightarrow> rng \<Rightarrow> error + ('e list \<times> rng)" where
  "single_block self embed_obj g =
     (let objid_embeds = slice (weight self) (objid_start_idx self) (objid_end_idx self) in
      case randbelow 200 g of (r, g') \<Rightarrow>
        bind (index_row objid_embeds r) (\<lambda>e0.
        bind (index_row embed_obj 0) (\<lambda>e1.
        Inr ([e0, e1], g'))))"

definition layout2 :: "'e::zero list \<Rightarrow> 'e list \<Rightarrow> nat list \<Rightarrow> error + 'e list" where
  "layout2 selected_objid_embeds embed_obj valid_ids =
     (let z = replicate (length selected_objid_embeds * 2) 0 in
      bind (set_strided z 0 2 selected_objid_embeds) (\<lambda>b0.
      bind (index_rows embed_obj valid_ids) (\<lambda>s1.
      set_strided b0 1 2 s1)))"

definition layout3 ::
  "'e::zero list \<Rightarrow> 'e list \<Rightarrow> 'e list \<Rightarrow> nat list \<Rightarrow> error + 'e list" where
  "layout3 selected_objid_embeds embed_obj embed_x valid_ids =
     (let z = replicate (length selected_objid_embeds * 3) 0 in
      bind (set_strided z 0 3 selected_objid_embeds) (\<lambda>b0.
      bind (index_rows embed_obj valid_ids) (\<lambda>s1.
      bind (set_strided b0 1 3 s1) (\<lambda>b1.
      bind (index_rows embed_x valid_ids) (\<lambda>s2.
      set_strided b1 2 3 s2)))))"

definition layout4 ::
  "'e::zero list \<Rightarrow> 'e list \<Rightarrow> 'e list \<Rightarrow> 'e list \<Rightarrow> nat list \<Rightarrow> error + 'e list" where
  "layout4 selected_objid_embeds embed_obj embed_img embed_scene valid_ids =
     (let z = replicate (length selected_objid_embeds * 4) 0 in
      bind (set_strided z 0 4 selected_objid_embeds) (\<lambda>b0.
      bind (index_rows embed_obj valid_ids) (\<lambda>s1.
      bind (set_strided b0 1 4 s1) (\<lambda>b1.
      bind (index_rows embed_img valid_ids) (\<lambda>s2.
      bind (set_strided b1 2 4 s2) (\<lambda>b2.
      bind (index_rows embed_scene valid_ids) (\<lambda>s3.
      set_strided b2 3 4 s3)))))))"

definition get_object_list_embed ::
  "'e::zero chat3d \<Rightarrow> 'e list \<Rightarrow> 'e list option \<Rightarrow> 'e list option \<Rightarrow> int list \<Rightarrow> rng
     \<Rightarrow> error + ('e list \<times> rng)" where
  "get_object_list_embed self embed_obj embed_img embed_scene scene_mask g =
     (let valid_ids = where_eq_1 scene_mask in
      bind (if length valid_ids = 1
            then bind (single_block self embed_obj g) (\<lambda>(b, g'). Inr (Some b, g'))
            else Inr (None, g)) (\<lambda>(object_list_embed0, g1).
      case shuffle valid_ids g1 of (valid_ids, g2) \<Rightarrow>
        let objid_embeds = slice (weight self) (objid_start_idx self) (objid_end_idx self);
            objid_embeds = (if \<not> train_emb self then detach objid_embeds else objid_embeds)
        in
        bind (index_rows objid_embeds valid_ids) (\<lambda>selected_objid_embeds.
        bind (if embed_img = None \<and> embed_scene = None
              then bind (layout2 selected_objid_embeds embed_obj valid_ids) (\<lambda>b. Inr (Some b))
              else Inr object_list_embed0) (\<lambda>object_list_embed1.
        bind (if embed_img = None \<and> embed_scene \<noteq> None
              then bind (layout3 selected_objid_embeds embed_obj (the embed_scene) valid_ids)
                     (\<lambda>b. Inr (Some b))
              else Inr object_list_embed1) (\<lambda>object_list_embed2.
        bind (if embed_img \<noteq> None \<and> embed_scene = None
              then bind (layout3 selected_objid_embeds embed_obj (the embed_img) valid_ids)
                     (\<lambda>b. Inr (Some b))
              else Inr object_list_embed2) (\<lambda>object_list_embed3.
        bind (if embed_img \<noteq> None \<and> embed_scene \<noteq> None
              then bind (layout4 selected_objid_embeds embed_obj (the embed_img)
                           (the embed_scene) valid_ids) (\<lambda>b. Inr (Some b))
              else Inr object_list_embed3) (\<lambda>object_list_embed4.
        case object_list_embed4 of
          None \<Rightarrow> Inl UnboundLocalError
        | Some b \<Rightarrow> Inr (b, g2))))))))"


section \<open>Text embedding with per-token gradient routing\<close>

text \<open>
  \<open>embed_tokens(ids)\<close>: one row of the table per token id; an id outside the table raises.
\<close>

definition embed_tokens :: "'e list \<Rightarrow> int list \<Rightarrow> error + 'e list" where
  "embed_tokens w ids =
     (if list_all (\<lambda>t. 0 \<le> t \<and> nat t < length w) ids
      then Inr (map (\<lambda>t. w ! nat t) ids) else Inl IndexError)"

text \<open>
  \<open>get_text_emb\<close>, on the token dimension (the leading batch dimension of size one, which
  the callers squeeze away, is omitted). \<open>indices\<close> is the 0/1 tensor
  \<open>(input_ids >= ori_vocab_size) * 1\<close>.
\<close>

definition get_text_emb :: "'e::real_vector chat3d \<Rightarrow> pystr \<Rightarrow> error + 'e list" where
  "get_text_emb self text =
     (let text_tokens = llama_tokenizer self text in
      bind (embed_tokens (weight self) (input_ids text_tokens)) (\<lambda>embeds.
      if train_emb self then
        let indices = map (\<lambda>t. if t \<ge> ori_vocab_size self then (1::int) else 0)
                        (input_ids text_tokens)
        in Inr (map2 (\<lambda>m e. (1 - real_of_int m) *\<^sub>R detach e + real_of_int m *\<^sub>R e)
                  indices embeds)
      else Inr (detach embeds)))"

section \<open>Sequence packer\<close>

text \<open>
  \<open>forward_stage2\<close> from the projected embeddings on: the object, image and scene
  projections are numeric layers computed before the loop, and the language model is
  called after the padding. \<open>scene_embed\<close> is what \<open>scene_proj\<close> yields; it is read only
  when \<open>add_scene_token\<close> is set (otherwise \<open>proj_scene_embed\<close> is \<open>None\<close>).
\<close>

record 'e stage2_inputs =
  proj_object_embed :: "'e list list"
  proj_object_img_embed :: "'e list list"
  scene_embed :: "'e list list"
  scene_masks :: "int list list"
  questions :: "pystr list"
  answers :: "pystr list"

record 'e stage2_acc =
  input_embed_list :: "'e list list"
  attn_list :: "int list list"
  target_list :: "int list list"
  max_seq_len :: nat

record 'e lm_call =
  inputs_embeds :: "'e list list"
  lm_attention_mask :: "int list list"
  labels :: "int list list"
  out_max_seq_len :: nat

text \<open>The body of the loop over the questions, for example \<open>i\<close>.\<close>

definition stage2_example ::
  "'e::real_vector chat3d \<Rightarrow> 'e stage2_inputs \<Rightarrow> nat \<Rightarrow> pystr \<Rightarrow> rng
     \<Rightarrow> error + (('e list \<times> int list \<times> int list) \<times> rng)" where
  "stage2_example self inp i question g =
     (let prompt = of_ascii '' '' @ question @ of_ascii '' '' @ role_1 self @ of_ascii '': '' in
      bind (get_text_emb self prompt) (\<lambda>prompt_embed.
      bind (index_row (proj_object_embed inp) i) (\<lambda>embed_obj.
      bind (if add_img_token self
            then bind (index_row (proj_object_img_embed inp) i) (\<lambda>t. Inr (Some t))
            else Inr None) (\<lambda>embed_img.
      bind (if add_scene_token self
            then bind (index_row (scene_embed inp) i) (\<lambda>t. Inr (Some t))
            else Inr None) (\<lambda>embed_scene.
      bind (index_row (scene_masks inp) i) (\<lambda>scene_mask.
      bind (get_object_list_embed self embed_obj embed_img embed_scene scene_mask g)
        (\<lambda>(object_list_embed, g').
      let wrapped_embed = p_0_embed self @ object_list_embed @ p_1_embed self @ prompt_embed;
          wrapped_attn = replicate (length wrapped_embed) (1::int);
          empty_target = replicate (length wrapped_attn) (- 100 :: int)
      in
      bind (index_row (answers inp) i) (\<lambda>answer_i.
      let answer = answer_i @ end_sym self;
          to_regress_token = llama_tokenizer self answer;
          answer_target = map (\<lambda>t. if t = pad_token_id self then - 100 else t)
                            (input_ids to_regress_token)
      in
      bind (get_text_emb self answer) (\<lambda>to_regress_embed.
      let target = empty_target @ answer_target;
          input_embed = wrapped_embed @ to_regress_embed;
          attn = wrapped_attn @ attention_mask to_regress_token
      in Inr ((input_embed, attn, target), g'))))))))))"

fun stage2_loop ::
  "'e::real_vector chat3d \<Rightarrow> 'e stage2_inputs \<Rightarrow> (nat \<times> pystr) list \<Rightarrow> 'e stage2_acc \<Rightarrow> rng
     \<Rightarrow> error + ('e stage2_acc \<times> rng)" where
  "stage2_loop self inp [] acc g = Inr (acc, g)"
| "stage2_loop self inp ((i, question) # rest) acc g =
     bind (stage2_example self inp i question g) (\<lambda>((input_embed, attn, target), g').
       stage2_loop self inp rest
         \<lparr>input_embed_list = input_embed_list acc @ [input_embed],
          attn_list = attn_list acc @ [attn],
          target_list = target_list acc @ [target],
          max_seq_len = max (max_seq_len acc) (length target)\<rparr> g')"

text \<open>
  \<open>pad_sequence(tensor_list, batch_first=True, padding_value)\<close>: every sequence is
  extended on the right to the longest one; an empty list of sequences raises.
\<close>

definition pad_sequence :: "'a list list \<Rightarrow> 'a \<Rightarrow> error + 'a list list" where
  "pad_sequence tensor_list padding_value =
     (if tensor_list = [] then Inl RuntimeError
      else let longest = foldr max (map length tensor_list) 0 in
        Inr (map (\<lambda>t. t @ replicate (longest - length t) padding_value) tensor_list))"

text \<open>\<open>padded.shape[1]\<close> of a non-empty batch: the common length of its rows.\<close>

definition shape1 :: "'a list list \<Rightarrow> nat" where
  "shape1 padded = length (hd padded)"

definition pad_and_trim :: "'a list list \<Rightarrow> nat \<Rightarrow> 'a \<Rightarrow> error + 'a list list" where
  "pad_and_trim tensor_list max_len padding_value =
     bind (pad_sequence tensor_list padding_value) (\<lambda>padded.
       if shape1 padded > max_len then Inr (map (take max_len) padded) else Inr padded)"

definition forward_stage2 ::
  "'e::real_vector chat3d \<Rightarrow> 'e stage2_inputs \<Rightarrow> rng \<Rightarrow> error + ('e lm_call \<times> rng)" where
  "forward_stage2 self inp g =
     bind (stage2_loop self inp (enumerate 0 (questions inp))
             \<lparr>input_embed_list = [], attn_list = [], target_list = [], max_seq_len = 0\<rparr> g)
       (\<lambda>(acc, g').
     let max_seq_len = min 768 (max_seq_len acc) in
     bind (pad_and_trim (input_embed_list acc) max_seq_len 0) (\<lambda>input_embeds.
     bind (pad_and_trim (attn_list acc) max_seq_len 0) (\<lambda>attention_mask.
     bind (pad_and_trim (target_list acc) max_seq_len (- 100)) (\<lambda>targets.
     Inr (\<lparr>inputs_embeds = input_embeds, lm_attention_mask = attention_mask,
            labels = targets, out_max_seq_len = max_seq_len\<rparr>, g')))))"

section \<open>Scene coordinate extents\<close>

text \<open>
  A float coordinate is a finite real or one of the two infinities (NaN is outside the
  model); comparisons, \<open>min\<close> and \<open>max\<close> of floats are exact, so the order below is the one the
  reductions use.
\<close>

datatype fval = NInf | Fin real | PInf

instantiation fval :: linorder
begin

fun less_eq_fval :: "fval \<Rightarrow> fval \<Rightarrow> bool" where
  "less_eq_fval NInf y = True"
| "less_eq_fval (Fin x) NInf = False"
| "less_eq_fval (Fin x) (Fin y) = (x \<le> y)"
| "less_eq_fval (Fin x) PInf = True"
| "less_eq_fval PInf NInf = False"
| "less_eq_fval PInf (Fin y) = False"
| "less_eq_fval PInf PInf = True"

definition less_fval :: "fval \<Rightarrow> fval \<Rightarrow> bool" where
  "less_fval x y = (x \<le> y \<and> \<not> y \<le> x)"

instance
proof
  fix x y z :: fval
  show "(x < y) = (x \<le> y \<and> \<not> y \<le> x)" by (simp add: less_fval_def)
  show "x \<le> x" by (cases x) simp_all
  show "x \<le> y \<Longrightarrow> y \<le> z \<Longrightarrow> x \<le> z" by (cases x; cases y; cases z) simp_all
  show "x \<le> y \<Longrightarrow> y \<le> x \<Longrightarrow> x = y" by (cases x; cases y) simp_all
  show "x \<le> y \<or> y \<le> x" by (cases x; cases y) auto
qed

end

text \<open>
  \<open>t.expand(...)\<close> along one dimension: a dimension of the wanted size is kept, a dimension
  of size one is repeated, anything else raises.
\<close>

definition expand_dim :: "'a list \<Rightarrow> nat \<Rightarrow> error + 'a list" where
  "expand_dim t n =
     (if length t = n then Inr t
      else if length t = 1 then Inr (replicate n (t ! 0))
      else Inl RuntimeError)"

fun map_err :: "('a \<Rightarrow> error + 'b) \<Rightarrow> 'a list \<Rightarrow> error + 'b list" where
  "map_err f [] = Inr []"
| "map_err f (x # xs) = bind (f x) (\<lambda>y. bind (map_err f xs) (\<lambda>ys. Inr (y # ys)))"

text \<open>
  \<open>t.min(dim=1)[0]\<close> and \<open>t.max(dim=1)[0]\<close> for one scene (\<open>N\<close> points of \<open>D\<close> components):
  the component-wise reduction over the points; a scene with no point slot at all has
  nothing to reduce and torch raises.
\<close>

definition reduce_dim :: "('a \<Rightarrow> 'a \<Rightarrow> 'a) \<Rightarrow> 'a list list \<Rightarrow> error + 'a list" where
  "reduce_dim f pts = (case pts of [] \<Rightarrow> Inl IndexError | p # ps \<Rightarrow> Inr (foldl (map2 f) p ps))"

text \<open>\<open>torch.where(scene_mask > 0, xyz, torch.full_like(xyz, fill))\<close> for one scene, the
  mask already expanded over the components.\<close>

definition where_gt_0 :: "int list \<Rightarrow> fval list list \<Rightarrow> fval \<Rightarrow> fval list list" where
  "where_gt_0 m pts fill = map2 (\<lambda>p v. map (\<lambda>x. if v > 0 then x else fill) p) pts m"

definition get_min_max_coord ::
  "fval list list list \<Rightarrow> int list list \<Rightarrow> error + (fval list list \<times> fval list list)" where
  "get_min_max_coord xyz scene_mask =
     bind (expand_dim scene_mask (length xyz)) (\<lambda>mask_b.
     bind (map_err (\<lambda>(pts, m). expand_dim m (length pts)) (zip xyz mask_b)) (\<lambda>scene_mask.
     let masked_xyz_min = map2 (\<lambda>pts m. where_gt_0 m pts PInf) xyz scene_mask;
         masked_xyz_max = map2 (\<lambda>pts m. where_gt_0 m pts NInf) xyz scene_mask
     in
     bind (map_err (reduce_dim min) masked_xyz_min) (\<lambda>mins.
     bind (map_err (reduce_dim max) masked_xyz_max) (\<lambda>maxs.
     Inr (mins, maxs)))))"

section \<open>Generation driver: post-processing of the decoded text\<close>

text \<open>
  \<open>s.split(sep)\<close>: the pieces between the successive occurrences of \<open>sep\<close>, searched from
  the left; an empty separator raises. \<open>cur\<close> is the piece being read.
\<close>

fun split_from :: "pystr \<Rightarrow> pystr \<Rightarrow> pystr \<Rightarrow> pystr list" where
  "split_from sep cur [] = [cur]"
| "split_from sep cur (c # cs) =
     (if prefix sep (c # cs) then cur # split_from sep [] (drop (length sep - 1) cs)
      else split_from sep (cur @ [c]) cs)"

definition py_split :: "pystr \<Rightarrow> pystr \<Rightarrow> error + pystr list" where
  "py_split s sep = (if sep = [] then Inl ValueError else Inr (split_from sep [] s))"

text \<open>
  \<open>s.replace(old, new)\<close>: every occurrence of \<open>old\<close> found in one pass from the left, each
  search resuming behind the previous occurrence, becomes \<open>new\<close>. With an empty \<open>old\<close>,
  \<open>new\<close> is put before every character and at the end.
\<close>

fun replace_from :: "pystr \<Rightarrow> pystr \<Rightarrow> pystr \<Rightarrow> pystr" where
  "replace_from old new [] = []"
| "replace_from old new (c # cs) =
     (if prefix old (c # cs) then new @ replace_from old new (drop (length old - 1) cs)
      else c # replace_from old new cs)"

definition py_replace :: "pystr \<Rightarrow> pystr \<Rightarrow> pystr \<Rightarrow> pystr" where
  "py_replace s old new =
     (if old = [] then new @ concat (map (\<lambda>c. c # new) s) else replace_from old new s)"

text \<open>\<open>str.isspace\<close> of one code point, and \<open>s.strip()\<close>.\<close>

definition py_isspace :: "nat \<Rightarrow> bool" where
  "py_isspace c =
     ((9 \<le> c \<and> c \<le> 13) \<or> (28 \<le> c \<and> c \<le> 32) \<or> c = 133 \<or> c = 160 \<or> c = 5760
      \<or> (8192 \<le> c \<and> c \<le> 8202) \<or> c = 8232 \<or> c = 8233 \<or> c = 8239 \<or> c = 8287
      \<or> c = 12288)"

definition py_strip :: "pystr \<Rightarrow> pystr" where
  "py_strip s = rev (dropWhile py_isspace (rev (dropWhile py_isspace s)))"

text \<open>
  The two lines of \<open>evaluate\<close> after \<open>decode\<close>:
  \<^verbatim>\<open>output_text = output_text.split(self.end_sym)[0]\<close>
  \<^verbatim>\<open>output_text = output_text.replace('  ', ' ').replace(' .', '.').strip()\<close>
\<close>

definition post_process :: "'e chat3d \<Rightarrow> pystr \<Rightarrow> error + pystr" where
  "post_process self output_text =
     bind (py_split output_text (end_sym self)) (\<lambda>parts.
     bind (index_row parts 0) (\<lambda>output_text.
     Inr (py_strip (py_replace (py_replace output_text (of_ascii ''  '') (of_ascii '' ''))
                      (of_ascii '' .'') (of_ascii ''.'')))))"

text \<open>
  The post-processing as the specification words it, step by step: the text before the
  first occurrence of the marker; each pair of spaces met from the left becomes one space;
  each space followed by a period met from the left loses the space; white space is removed
  at both ends.
\<close>

fun truncate_at_first :: "pystr \<Rightarrow> pystr \<Rightarrow> pystr" where
  "truncate_at_first marker [] = []"
| "truncate_at_first marker (c # cs) =
     (if prefix marker (c # cs) then [] else c # truncate_at_first marker cs)"

fun collapse_double_spaces :: "pystr \<Rightarrow> pystr" where
  "collapse_double_spaces (a # b # cs) =
     (if a = 32 \<and> b = 32 then 32 # collapse_double_spaces cs
      else a # collapse_double_spaces (b # cs))"
| "collapse_double_spaces cs = cs"

fun remove_space_before_period :: "pystr \<Rightarrow> pystr" where
  "remove_space_before_period (a # b # cs) =
     (if a = 32 \<and> b = 46 then 46 # remove_space_before_period cs
      else a # remove_space_before_period (b # cs))"
| "remove_space_before_period cs = cs"

definition strip_whitespace :: "pystr \<Rightarrow> pystr" where
  "strip_whitespace s =
     (let t = dropWhile py_isspace s in take (length t - length (takeWhile py_isspace (rev t))) t)"

section \<open>Grounding accuracy: box corners\<close>

text \<open>\<open>construct_bbox_corners\<close>: \<open>sx, sy, sz = box_size\<close> needs exactly three values,
  \<open>center[0..2]\<close> at least three.\<close>

definition np_transpose :: "'a list list \<Rightarrow> 'a list list" where
  "np_transpose m = (case m of [] \<Rightarrow> [] | r # _ \<Rightarrow> map (\<lambda>j. map (\<lambda>row. row ! j) m) [0..<length r])"

definition construct_bbox_corners :: "real list \<Rightarrow> real list \<Rightarrow> error + real list list" where
  "construct_bbox_corners center box_size =
     (case box_size of
        [sx, sy, sz] \<Rightarrow>
          let x_corners = [sx / 2, sx / 2, - sx / 2, - sx / 2, sx / 2, sx / 2, - sx / 2, - sx / 2];
              y_corners = [sy / 2, - sy / 2, - sy / 2, sy / 2, sy / 2, - sy / 2, - sy / 2, sy / 2];
              z_corners = [sz / 2, sz / 2, sz / 2, sz / 2, - sz / 2, - sz / 2, - sz / 2, - sz / 2];
              corners_3d = [x_corners, y_corners, z_corners]
          in
          bind (index_row center 0) (\<lambda>c0.
          let corners_3d = corners_3d[0 := map (\<lambda>v. v + c0) (corners_3d ! 0)] in
          bind (index_row center 1) (\<lambda>c1.
          let corners_3d = corners_3d[1 := map (\<lambda>v. v + c1) (corners_3d ! 1)] in
          bind (index_row center 2) (\<lambda>c2.
          let corners_3d = corners_3d[2 := map (\<lambda>v. v + c2) (corners_3d ! 2)] in
          Inr (np_transpose corners_3d))))
      | _ \<Rightarrow> Inl ValueError)"

text \<open>\<open>get_box3d_min_max\<close>: \<open>corner.min(axis=0)\<close> and \<open>corner.max(axis=0)\<close> reduce over the
  corners; numpy raises on an array without rows.\<close>

definition reduce_axis0 :: "(real \<Rightarrow> real \<Rightarrow> real) \<Rightarrow> real list list \<Rightarrow> error + real list" where
  "reduce_axis0 f corner =
     (case corner of [] \<Rightarrow> Inl ValueError | p # ps \<Rightarrow> Inr (foldl (map2 f) p ps))"

definition get_box3d_min_max ::
  "real list list \<Rightarrow> error + (real \<times> real \<times> real \<times> real \<times> real \<times> real)" where
  "get_box3d_min_max corner =
     bind (reduce_axis0 min corner) (\<lambda>min_coord.
     bind (reduce_axis0 max corner) (\<lambda>max_coord.
     bind (index_row min_coord 0) (\<lambda>x_min.
     bind (index_row max_coord 0) (\<lambda>x_max.
     bind (index_row min_coord 1) (\<lambda>y_min.
     bind (index_row max_coord 1) (\<lambda>y_max.
     bind (index_row min_coord 2) (\<lambda>z_min.
     bind (index_row max_coord 2) (\<lambda>z_max.
     Inr (x_min, x_max, y_min, y_max, z_min, z_max)))))))))"

text \<open>A generator that always draws 0, for concrete evaluations.\<close>

definition rng0 :: rng where
  "rng0 = \<lparr>draws = (\<lambda>_. 0), pos = 0\<rparr>"

section \<open>Notions used to state the properties\<close>

text \<open>The pool of object-identifier embeddings: the slice of the table the interleaver reads.\<close>

definition objid_pool :: "'e chat3d \<Rightarrow> 'e list" where
  "objid_pool self = slice (weight self) (objid_start_idx self) (objid_end_idx self)"

text \<open>The layout width: 2 without image and scene embeddings, 4 with both, 3 with one.\<close>

definition layout_width :: "'e list option \<Rightarrow> 'e list option \<Rightarrow> nat" where
  "layout_width embed_img embed_scene =
     (if embed_img = None \<and> embed_scene = None then 2
      else if embed_img \<noteq> None \<and> embed_scene \<noteq> None then 4 else 3)"

text \<open>The rows of one object \<open>v\<close>: identifier, object, image when active, scene when active.\<close>

definition object_group ::
  "'e list \<Rightarrow> 'e list \<Rightarrow> 'e list option \<Rightarrow> 'e list option \<Rightarrow> nat \<Rightarrow> 'e list" where
  "object_group pool embed_obj embed_img embed_scene v =
     [pool ! v, embed_obj ! v]
     @ (case embed_img of None \<Rightarrow> [] | Some t \<Rightarrow> [t ! v])
     @ (case embed_scene of None \<Rightarrow> [] | Some t \<Rightarrow> [t ! v])"

text \<open>The same, column by column for a list of objects.\<close>

definition layout_cols ::
  "'e list \<Rightarrow> 'e list \<Rightarrow> 'e list option \<Rightarrow> 'e list option \<Rightarrow> nat list \<Rightarrow> 'e list list" where
  "layout_cols pool embed_obj embed_img embed_scene ids =
     [map (\<lambda>v. pool ! v) ids, map (\<lambda>v. embed_obj ! v) ids]
     @ (case embed_img of None \<Rightarrow> [] | Some t \<Rightarrow> [map (\<lambda>v. t ! v) ids])
     @ (case embed_scene of None \<Rightarrow> [] | Some t \<Rightarrow> [map (\<lambda>v. t ! v) ids])"

text \<open>
  Every tensor handed to the interleaver has a row for every slot of the mask, and the
  pool an identifier for every slot.
\<close>

definition slots_covered ::
  "'e chat3d \<Rightarrow> 'e list \<Rightarrow> 'e list option \<Rightarrow> 'e list option \<Rightarrow> int list \<Rightarrow> bool" where
  "slots_covered self embed_obj embed_img embed_scene scene_mask =
     (length scene_mask \<le> length (objid_pool self) \<and> length scene_mask \<le> length embed_obj
      \<and> (case embed_img of None \<Rightarrow> True | Some t \<Rightarrow> length scene_mask \<le> length t)
      \<and> (case embed_scene of None \<Rightarrow> True | Some t \<Rightarrow> length scene_mask \<le> length t))"

text \<open>
  A small model object for concrete evaluations: a vocabulary of 4 tokens extended by the
  200 identifier tokens, the row of token \<open>t\<close> being the number \<open>t\<close>; the tokenizer maps a
  code point to its residue modulo 4.
\<close>

definition demo_tokenizer :: "pystr \<Rightarrow> tokenized" where
  "demo_tokenizer s =
     \<lparr>input_ids = map (\<lambda>c. int (c mod 4)) s, attention_mask = replicate (length s) 1\<rparr>"

definition demo_model :: "real chat3d" where
  "demo_model =
     \<lparr>weight = map real [0..<204], llama_tokenizer = demo_tokenizer, pad_token_id = 0,
      ori_vocab_size = 4, objid_start_idx = 4, objid_end_idx = 204, train_emb = True,
      add_img_token = True, add_scene_token = False, end_sym = of_ascii ''</s>'',
      role_1 = of_ascii ''ASSISTANT'', p_0_embed = [1, 2], p_1_embed = [3]\<rparr>"

text \<open>The text, image and scene arguments of example \<open>i\<close> of a batch.\<close>

definition example_prompt :: "'e chat3d \<Rightarrow> pystr \<Rightarrow> pystr" where
  "example_prompt self question =
     of_ascii '' '' @ question @ of_ascii '' '' @ role_1 self @ of_ascii '': ''"

definition example_embed_img :: "'e chat3d \<Rightarrow> 'e stage2_inputs \<Rightarrow> nat \<Rightarrow> 'e list option" where
  "example_embed_img self inp i =
     (if add_img_token self then Some (proj_object_img_embed inp ! i) else None)"

definition example_embed_scene :: "'e chat3d \<Rightarrow> 'e stage2_inputs \<Rightarrow> nat \<Rightarrow> 'e list option" where
  "example_embed_scene self inp i =
     (if add_scene_token self then Some (scene_embed inp ! i) else None)"

text \<open>A batch of one scene with two valid objects, and what \<open>stage2_example\<close> packs for it.\<close>

definition demo_inputs :: "real stage2_inputs" where
  "demo_inputs =
     \<lparr>proj_object_embed = [[10, 11]], proj_object_img_embed = [[20, 21]], scene_embed = [],
      scene_masks = [[1, 1]], questions = [of_ascii ''q''], answers = [of_ascii ''a'']\<rparr>"


definition demo_input_embed :: "real list" where
  "demo_input_embed =
     [1, 2, 5, 11, 21, 4, 10, 20, 3, 0, 1, 0, 1, 3, 3, 1, 3, 0, 1, 2, 0, 2, 0, 1, 0, 3, 3, 2]"

definition demo_attn :: "int list" where
  "demo_attn = replicate 28 1"

definition demo_target :: "int list" where
  "demo_target = replicate 23 (- 100) @ [1, - 100, 3, 3, 2]"

text \<open>The length of the longest sequence of a batch (0 for the empty batch).\<close>

definition longest :: "'a list list \<Rightarrow> nat" where
  "longest xs = foldr max (map length xs) 0"

text \<open>
  The three lists the loop of \<open>forward_stage2\<close> builds agree in the lengths of their
  entries, and \<open>max_seq_len\<close> is the longest target; the tokenizer returns an attention mask
  as long as its token ids.
\<close>

definition acc_aligned :: "'e stage2_acc \<Rightarrow> bool" where
  "acc_aligned acc =
     (map length (input_embed_list acc) = map length (target_list acc)
      \<and> map length (attn_list acc) = map length (target_list acc)
      \<and> max_seq_len acc = longest (target_list acc))"

definition tokenizer_aligned :: "'e chat3d \<Rightarrow> bool" where
  "tokenizer_aligned self =
     (\<forall>s. length (attention_mask (llama_tokenizer self s))
            = length (input_ids (llama_tokenizer self s)))"

text \<open>
  A batch that is both padded and truncated: the model \<open>demo_model\<close> with a prefix of 730
  rows, and two examples whose packed sequences have 756 and 770 positions (\<open>demo_rows\<close>
  are the rows the text embedding of the model returns).
\<close>

definition demo_model_long :: "real chat3d" where
  "demo_model_long = demo_model\<lparr>p_0_embed := replicate 730 1\<rparr>"

definition demo_long_inputs :: "real stage2_inputs" where
  "demo_long_inputs =
     \<lparr>proj_object_embed = [[10, 11], [12, 13]], proj_object_img_embed = [[20, 21], [22, 23]],
      scene_embed = [], scene_masks = [[1, 1], [1, 1]],
      questions = [of_ascii ''q'', of_ascii ''what is this''],
      answers = [of_ascii ''a'', of_ascii ''desk'']\<rparr>"

definition demo_rows :: "pystr \<Rightarrow> real list" where
  "demo_rows s = map (\<lambda>c. real (c mod 4)) s"

definition demo_long_acc :: "real stage2_acc" where
  "demo_long_acc =
     \<lparr>input_embed_list =
        [replicate 730 1 @ [5, 11, 21, 4, 10, 20, 3] @ demo_rows (of_ascii '' q ASSISTANT: '')
           @ demo_rows (of_ascii ''a</s>''),
         replicate 730 1 @ [5, 13, 23, 4, 12, 22, 3]
           @ demo_rows (of_ascii '' what is this ASSISTANT: '') @ demo_rows (of_ascii ''desk</s>'')],
      attn_list = [replicate 751 1 @ [1, 1, 1, 1, 1], replicate 762 1 @ [1, 1, 1, 1, 1, 1, 1, 1]],
      target_list =
        [replicate 751 (- 100) @ [1, - 100, 3, 3, 2],
         replicate 762 (- 100) @ [- 100, 1, 3, 3, - 100, 3, 3, 2]],
      max_seq_len = 770\<rparr>"

text \<open>
  A batch of coordinates and its mask have matching shapes, every scene has at least one
  object slot, and every point has \<open>D\<close> components; the coordinates of component \<open>c\<close> at
  the valid slots (mask greater than 0) of a scene.
\<close>

definition well_shaped :: "fval list list list \<Rightarrow> int list list \<Rightarrow> nat \<Rightarrow> bool" where
  "well_shaped xyz scene_mask D =
     (length scene_mask = length xyz
      \<and> (\<forall>b<length xyz. xyz ! b \<noteq> [] \<and> length (scene_mask ! b) = length (xyz ! b)
             \<and> (\<forall>p\<in>set (xyz ! b). length p = D)))"

definition valid_values :: "fval list list \<Rightarrow> int list \<Rightarrow> nat \<Rightarrow> fval set" where
  "valid_values pts m c = {pts ! j ! c | j. j < length pts \<and> m ! j > 0}"

text \<open>Two scenes of two slots: one valid object in the first, none in the second.\<close>

definition demo_xyz :: "fval list list list" where
  "demo_xyz = [[[Fin 1, Fin 5, Fin 0], [Fin 2, Fin 3, Fin 9]],
               [[Fin 4, Fin 4, Fin 4], [Fin 7, Fin 7, Fin 7]]]"

definition demo_scene_mask :: "int list list" where
  "demo_scene_mask = [[1, 0], [0, 0]]"

section \<open>Basic facts\<close>

lemma bind_Inr [simp]: "bind (Inr x) f = f x"
  by (simp add: bind_def)

lemma bind_Inl [simp]: "bind (Inl e) f = Inl e"
  by (simp add: bind_def)

section \<open>The interleaver: auxiliary facts\<close>

lemma slice_count_exact: "off < w \<Longrightarrow> slice_count (n * w) off w = n"
proof (cases n)
  case 0 then show ?thesis by (simp add: slice_count_def)
next
  case (Suc m)
  assume ow: "off < w"
  from Suc ow have lt: "off < n * w" by (simp add: trans_less_add1)
  define d where "d = w - off - 1"
  have dw: "d < w" and e: "n * w - off + w - 1 = n * w + d" using lt ow by (simp_all add: d_def)
  have "(n * w + d) div w = n" using dw by simp
  with e show ?thesis using lt by (simp add: slice_count_def)
qed

lemma strided_decomp:
  fixes off w i :: nat
  assumes "i mod w = off" shows "w * (i div w) + off = i"
  using assms mult_div_mod_eq [of w i] by simp

lemma strided_pos: 
  fixes off w i :: nat
  assumes "off < w" shows "(off \<le> i \<and> (i - off) mod w = 0) = (i mod w = off)"
proof
  assume a: "off \<le> i \<and> (i - off) mod w = 0"
  then have "w dvd (i - off)" by (simp add: dvd_eq_mod_eq_0)
  then obtain q where "i - off = w * q" by (rule dvdE)
  with a have "i = w * q + off" by linarith
  with assms show "i mod w = off" by simp
next
  assume m: "i mod w = off"
  from strided_decomp [OF m] have "off \<le> i" by linarith
  moreover from strided_decomp [OF m] have "i - off = w * (i div w)" by linarith
  then have "(i - off) mod w = 0" by simp
  ultimately show "off \<le> i \<and> (i - off) mod w = 0" by simp
qed

lemma strided_div: 
  fixes off w i :: nat
  assumes "off < w" "i mod w = off" shows "(i - off) div w = i div w"
proof -
  from strided_decomp [OF assms(2)] have "i - off = w * (i div w)" by linarith
  with assms show ?thesis by simp
qed

lemma set_strided_exact:
  assumes "off < w" "length t = n * w" "length src = n"
  shows "set_strided t off w src =
     Inr (map (\<lambda>i. if i mod w = off then src ! (i div w) else t ! i) [0..<n * w])"
  using assms by (simp add: set_strided_def slice_count_exact strided_pos strided_div cong: if_cong)

lemma index_rows_ok:
  "list_all (\<lambda>i. i < length t) ids \<Longrightarrow> index_rows t ids = Inr (map (\<lambda>i. t ! i) ids)"
  by (simp add: index_rows_def)

lemma mod2_cases: "(i::nat) mod 2 \<noteq> 0 \<Longrightarrow> i mod 2 = 1"
  by presburger

lemma mod3_cases: "(i::nat) mod 3 \<noteq> 0 \<Longrightarrow> i mod 3 \<noteq> Suc 0 \<Longrightarrow> i mod 3 = 2"
  by presburger

lemma mod4_cases: "(i::nat) mod 4 \<noteq> 0 \<Longrightarrow> i mod 4 \<noteq> Suc 0 \<Longrightarrow> i mod 4 \<noteq> 2 \<Longrightarrow> i mod 4 = 3"
  by presburger

lemma layout2_exact:
  assumes "list_all (\<lambda>i. i < length embed_obj) ids" "length sel = length ids"
  shows "layout2 sel embed_obj ids =
     Inr (map (\<lambda>i. [sel, map (\<lambda>v. embed_obj ! v) ids] ! (i mod 2) ! (i div 2))
            [0..<length ids * 2])"
proof -
  have d: "i div 2 < length ids" if "i < length ids * 2" for i
    using that by (simp add: less_mult_imp_div_less)
  show ?thesis
    using assms
    by (auto simp add: layout2_def Let_def set_strided_exact [where n = "length ids"]
          index_rows_ok d nth_Cons' dest: mod2_cases)
qed

lemma layout3_exact:
  assumes "list_all (\<lambda>i. i < length embed_obj) ids" "list_all (\<lambda>i. i < length embed_x) ids"
    "length sel = length ids"
  shows "layout3 sel embed_obj embed_x ids =
     Inr (map (\<lambda>i. [sel, map (\<lambda>v. embed_obj ! v) ids, map (\<lambda>v. embed_x ! v) ids]
                     ! (i mod 3) ! (i div 3))
            [0..<length ids * 3])"
proof -
  have d: "i div 3 < length ids" if "i < length ids * 3" for i
    using that by (simp add: less_mult_imp_div_less)
  show ?thesis
    using assms
    by (auto simp add: layout3_def Let_def set_strided_exact [where n = "length ids"]
          index_rows_ok d nth_Cons' dest: mod3_cases)
qed

lemma layout4_exact:
  assumes "list_all (\<lambda>i. i < length embed_obj) ids" "list_all (\<lambda>i. i < length embed_img) ids"
    "list_all (\<lambda>i. i < length embed_scene) ids"
    "length sel = length ids"
  shows "layout4 sel embed_obj embed_img embed_scene ids =
     Inr (map (\<lambda>i. [sel, map (\<lambda>v. embed_obj ! v) ids, map (\<lambda>v. embed_img ! v) ids,
                      map (\<lambda>v. embed_scene ! v) ids] ! (i mod 4) ! (i div 4))
            [0..<length ids * 4])"
proof -
  have d: "i div 4 < length ids" if "i < length ids * 4" for i
    using that by (simp add: less_mult_imp_div_less)
  show ?thesis
    using assms
    by (auto simp add: layout4_def Let_def set_strided_exact [where n = "length ids"]
          index_rows_ok d nth_Cons' dest: mod4_cases)
qed

lemma shuffle_from_mset:
  "i < length x \<Longrightarrow> mset (fst (shuffle_from i x g)) = mset x"
proof (induction i arbitrary: x g)
  case 0
  then show ?case by simp
next
  case (Suc i)
  obtain j g' where r: "randbelow (Suc i + 1) g = (j, g')" by (cases "randbelow (Suc i + 1) g")
  then have "j < Suc i + 1" by (auto simp: randbelow_def)
  with Suc.prems have j: "j < length x" by simp
  let ?x' = "x[Suc i := x ! j, j := x ! Suc i]"
  have "mset ?x' = mset x" using j Suc.prems by (simp add: mset_swap)
  moreover have "mset (fst (shuffle_from i ?x' g')) = mset ?x'"
    using Suc.prems by (intro Suc.IH) simp
  ultimately show ?case using r by simp
qed

lemma shuffle_mset: "mset (fst (shuffle x g)) = mset x"
proof (cases x)
  case Nil
  then show ?thesis by (simp add: shuffle_def)
next
  case (Cons a as)
  then show ?thesis by (simp add: shuffle_def shuffle_from_mset)
qed

lemma shuffle_set: "set (fst (shuffle x g)) = set x"
  using shuffle_mset [of x g] by (metis set_mset_mset)

lemma shuffle_length: "length (fst (shuffle x g)) = length x"
  using shuffle_mset [of x g] by (metis size_mset)

lemma shuffle_list_all: "list_all P x \<Longrightarrow> list_all P (fst (shuffle x g))"
  by (simp add: list_all_iff shuffle_set)

lemma set_where_eq_1: "set (where_eq_1 m) = {i. i < length m \<and> m ! i = 1}"
  by (auto simp: where_eq_1_def)

lemma gole_exact:
  fixes self :: "'e::zero chat3d"
  assumes first: "(if length (where_eq_1 scene_mask) = 1
            then bind (single_block self embed_obj g) (\<lambda>(b, g'). Inr (Some b, g'))
            else Inr (None, g)) = Inr (o0, g1)"
    and pool: "list_all (\<lambda>i. i < length (objid_pool self)) (where_eq_1 scene_mask)"
    and obj: "list_all (\<lambda>i. i < length embed_obj) (where_eq_1 scene_mask)"
    and img: "\<And>t. embed_img = Some t \<Longrightarrow> list_all (\<lambda>i. i < length t) (where_eq_1 scene_mask)"
    and scene: "\<And>t. embed_scene = Some t \<Longrightarrow> list_all (\<lambda>i. i < length t) (where_eq_1 scene_mask)"
  shows "get_object_list_embed self embed_obj embed_img embed_scene scene_mask g =
     Inr (map (\<lambda>i. layout_cols (objid_pool self) embed_obj embed_img embed_scene
                      (fst (shuffle (where_eq_1 scene_mask) g1)) ! (i mod layout_width embed_img embed_scene)
                      ! (i div layout_width embed_img embed_scene))
            [0..<length (where_eq_1 scene_mask) * layout_width embed_img embed_scene],
          snd (shuffle (where_eq_1 scene_mask) g1))"
proof -
  obtain ids g2 where sh: "shuffle (where_eq_1 scene_mask) g1 = (ids, g2)"
    by (cases "shuffle (where_eq_1 scene_mask) g1")
  have ids: "ids = fst (shuffle (where_eq_1 scene_mask) g1)" using sh by simp
  have len: "length ids = length (where_eq_1 scene_mask)" by (simp add: ids shuffle_length)
  have p: "list_all (\<lambda>i. i < length (objid_pool self)) ids"
    and ob: "list_all (\<lambda>i. i < length embed_obj) ids"
    using pool obj by (simp_all add: ids shuffle_list_all)
  have sel: "index_rows (slice (weight self) (objid_start_idx self) (objid_end_idx self)) ids
     = Inr (map (\<lambda>v. objid_pool self ! v) ids)"
    using p by (simp add: index_rows_ok objid_pool_def)
  show ?thesis
  proof (cases embed_img)
    case None
    note i = this
    show ?thesis
    proof (cases embed_scene)
      case None
      show ?thesis
        unfolding get_object_list_embed_def Let_def first
        using i None ob
        by (simp add: sh sel detach_def layout2_exact layout_cols_def layout_width_def len)
    next
      case (Some t)
      have "list_all (\<lambda>i. i < length t) ids" using scene [OF Some] by (simp add: ids shuffle_list_all)
      then show ?thesis
        unfolding get_object_list_embed_def Let_def first
        using i Some ob
        by (simp add: sh sel detach_def layout3_exact layout_cols_def layout_width_def len)
    qed
  next
    case (Some u)
    note i = this
    have u: "list_all (\<lambda>i. i < length u) ids" using img [OF Some] by (simp add: ids shuffle_list_all)
    show ?thesis
    proof (cases embed_scene)
      case None
      show ?thesis
        unfolding get_object_list_embed_def Let_def first
        using i None ob u
        by (simp add: sh sel detach_def layout3_exact layout_cols_def layout_width_def len)
    next
      case (Some t)
      have "list_all (\<lambda>i. i < length t) ids" using scene [OF Some] by (simp add: ids shuffle_list_all)
      then show ?thesis
        unfolding get_object_list_embed_def Let_def first
        using i Some ob u
        by (simp add: sh sel detach_def layout4_exact layout_cols_def layout_width_def len)
    qed
  qed
qed

lemma cols_group:
  assumes "k < length ids" "c < layout_width embed_img embed_scene"
  shows "layout_cols pool embed_obj embed_img embed_scene ids ! c ! k
     = object_group pool embed_obj embed_img embed_scene (ids ! k) ! c"
  using assms
  by (cases embed_img; cases embed_scene)
     (auto simp: layout_cols_def object_group_def layout_width_def nth_Cons' less_Suc_eq
        numeral_2_eq_2 numeral_3_eq_3 eval_nat_numeral)

lemma layout_width_pos: "0 < layout_width embed_img embed_scene"
  by (simp add: layout_width_def)

lemma slots_covered_all:
  assumes "slots_covered self embed_obj embed_img embed_scene scene_mask"
  shows "list_all (\<lambda>i. i < length (objid_pool self)) (where_eq_1 scene_mask)"
    and "list_all (\<lambda>i. i < length embed_obj) (where_eq_1 scene_mask)"
    and "\<And>t. embed_img = Some t \<Longrightarrow> list_all (\<lambda>i. i < length t) (where_eq_1 scene_mask)"
    and "\<And>t. embed_scene = Some t \<Longrightarrow> list_all (\<lambda>i. i < length t) (where_eq_1 scene_mask)"
  using assms by (auto simp: slots_covered_def list_all_iff set_where_eq_1)

lemma gole_block:
  fixes self :: "'e::zero chat3d"
  assumes first: "(if length (where_eq_1 scene_mask) = 1
            then bind (single_block self embed_obj g) (\<lambda>(b, g'). Inr (Some b, g'))
            else Inr (None, g)) = Inr (o0, g1)"
    and cov: "slots_covered self embed_obj embed_img embed_scene scene_mask"
  shows "get_object_list_embed self embed_obj embed_img embed_scene scene_mask g =
     Inr (map (\<lambda>i. object_group (objid_pool self) embed_obj embed_img embed_scene
                      (fst (shuffle (where_eq_1 scene_mask) g1)
                         ! (i div layout_width embed_img embed_scene))
                      ! (i mod layout_width embed_img embed_scene))
            [0..<length (where_eq_1 scene_mask) * layout_width embed_img embed_scene],
          snd (shuffle (where_eq_1 scene_mask) g1))"
proof -
  let ?w = "layout_width embed_img embed_scene"
  let ?ids = "fst (shuffle (where_eq_1 scene_mask) g1)"
  have "i div ?w < length ?ids \<and> i mod ?w < ?w"
    if "i < length (where_eq_1 scene_mask) * ?w" for i
    using that by (simp add: less_mult_imp_div_less shuffle_length layout_width_pos)
  then show ?thesis
    by (simp add: gole_exact [OF first slots_covered_all [OF cov]] cols_group)
qed

lemma first_many:
  "2 \<le> length (where_eq_1 scene_mask) \<Longrightarrow>
   (if length (where_eq_1 scene_mask) = 1
            then bind (single_block self embed_obj g) (\<lambda>(b, g'). Inr (Some b, g'))
            else Inr (None, g)) = Inr (None, g)"
  by simp

lemma group_nth:
  fixes k w c n :: nat
  assumes "k < n" "c < w"
  shows "k * w + c < n * w" "(k * w + c) div w = k" "(k * w + c) mod w = c"
proof -
  have "k * w + c < k * w + w" using assms by simp
  also have "\<dots> = Suc k * w" by simp
  also have "\<dots> \<le> n * w" using assms by (intro mult_le_mono1) simp
  finally show "k * w + c < n * w" .
  show "(k * w + c) div w = k" "(k * w + c) mod w = c" using assms by simp_all
qed

lemma object_group_rows:
  "embed_img = Some t \<Longrightarrow> object_group pool embed_obj embed_img embed_scene v ! 2 = t ! v"
  "embed_scene = Some u \<Longrightarrow>
     object_group pool embed_obj embed_img embed_scene v
       ! (layout_width embed_img embed_scene - 1) = u ! v"
  by (cases embed_img; cases embed_scene; simp add: object_group_def layout_width_def)+

lemma where_demo: "where_eq_1 [1, 0, 1] = [0, 2]" "where_eq_1 [0, 1] = [1]" "where_eq_1 [0, 0] = []"
  by code_simp+

lemma pool_demo: "objid_pool demo_model = map real [4..<204]"
  by (simp add: objid_pool_def demo_model_def slice_def drop_map take_map)

lemma shuffle_single: "shuffle [v] g = ([v], g)"
  by (simp add: shuffle_def)

lemma shuffle_empty: "shuffle [] g = ([], g)"
  by (simp add: shuffle_def)

lemma object_group_length:
  "length (object_group pool embed_obj embed_img embed_scene v) = layout_width embed_img embed_scene"
  by (cases embed_img; cases embed_scene) (simp_all add: object_group_def layout_width_def)

lemma gole_single:
  fixes self :: "'e::zero chat3d"
  assumes one: "where_eq_1 scene_mask = [v]"
    and pool: "200 \<le> length (objid_pool self)"
    and cov: "slots_covered self embed_obj embed_img embed_scene scene_mask"
  shows "get_object_list_embed self embed_obj embed_img embed_scene scene_mask g
     = Inr (object_group (objid_pool self) embed_obj embed_img embed_scene v,
            snd (randbelow 200 g))"
proof -
  let ?w = "layout_width embed_img embed_scene"
  obtain r g' where r: "randbelow 200 g = (r, g')" by (cases "randbelow 200 g")
  then have "r < 200" by (auto simp: randbelow_def)
  with pool have rp: "r < length (objid_pool self)" by simp
  have "v \<in> set (where_eq_1 scene_mask)" by (simp add: one)
  then have "v < length scene_mask" by (simp add: set_where_eq_1)
  with cov have ne: "0 < length embed_obj" by (auto simp: slots_covered_def)
  have first: "(if length (where_eq_1 scene_mask) = 1
            then bind (single_block self embed_obj g) (\<lambda>(b, g'). Inr (Some b, g'))
            else Inr (None, g))
     = Inr (Some [objid_pool self ! r, embed_obj ! 0], g')"
    using rp ne by (simp add: one single_block_def r index_row_def objid_pool_def)
  have "map (\<lambda>i. object_group (objid_pool self) embed_obj embed_img embed_scene v ! i) [0..<?w]
     = object_group (objid_pool self) embed_obj embed_img embed_scene v"
    using map_nth [of "object_group (objid_pool self) embed_obj embed_img embed_scene v"]
    by (simp add: object_group_length)
  moreover have "map (\<lambda>i. object_group (objid_pool self) embed_obj embed_img embed_scene
                       ([v] ! (i div ?w)) ! (i mod ?w)) [0..<?w]
     = map (\<lambda>i. object_group (objid_pool self) embed_obj embed_img embed_scene v ! i) [0..<?w]"
    by (rule map_cong) simp_all
  ultimately show ?thesis
    by (simp add: gole_block [OF first cov] one shuffle_single r)
qed

lemma gole_zero:
  fixes self :: "'e::zero chat3d"
  assumes "where_eq_1 scene_mask = []"
  shows "get_object_list_embed self embed_obj embed_img embed_scene scene_mask g = Inr ([], g)"
proof -
  have first: "(if length (where_eq_1 scene_mask) = 1
            then bind (single_block self embed_obj g) (\<lambda>(b, g'). Inr (Some b, g'))
            else Inr (None, g)) = Inr (None, g)"
    by (simp add: assms)
  show ?thesis
    by (simp add: gole_exact [OF first] assms shuffle_empty)
qed

section \<open>The interleaver: properties\<close>

text \<open>
  Claim C2. For a scene with at least two valid objects, \<open>get_object_list_embed\<close> returns
  a block of exactly \<open>validCount * layoutWidth\<close> rows, the layout width being 2 when neither
  image nor scene embeddings are supplied, 3 when exactly one of them is, and 4 when both
  are. (The tensors are assumed to have a row, and the pool an identifier, for every slot
  of the mask; then the call raises nothing.)
\<close>

theorem interleaved_block_length:
  fixes self :: "'e::zero chat3d"
  assumes "2 \<le> length (where_eq_1 scene_mask)"
    and "slots_covered self embed_obj embed_img embed_scene scene_mask"
  shows "\<exists>block g'.
     get_object_list_embed self embed_obj embed_img embed_scene scene_mask g = Inr (block, g')
     \<and> length block = length (where_eq_1 scene_mask) * layout_width embed_img embed_scene"
  by (simp add: gole_block [OF first_many [OF assms(1)] assms(2)])

theorem interleaved_block_length_witness:
  "2 \<le> length (where_eq_1 [1, 0, 1])
   \<and> slots_covered demo_model [10, 11, 12] (Some [20, 21, 22]) None [1, 0, 1]
   \<and> (\<exists>block g'.
        get_object_list_embed demo_model [10, 11, 12] (Some [20, 21, 22]) None [1, 0, 1] rng0
          = Inr (block, g')
        \<and> length block = 6)"
proof -
  have h1: "2 \<le> length (where_eq_1 [1, 0, 1])" by (simp add: where_demo)
  have h2: "slots_covered demo_model [10, 11, 12] (Some [20, 21, 22]) None [1, 0, 1]"
    by (simp add: slots_covered_def pool_demo)
  have w: "length (where_eq_1 [1, 0, 1]) * layout_width (Some [20, 21, 22 :: real]) None = 6"
    by (simp add: where_demo layout_width_def)
  from interleaved_block_length [OF h1 h2, of rng0] h1 h2 show ?thesis
    unfolding w by simp
qed

text \<open>
  Claim C3. For a scene with at least two valid objects and each of the four layouts, the
  block holds, for the \<open>k\<close>-th object of the shuffled valid-index order, its identifier
  embedding at row \<open>k * w\<close>, its object embedding at row \<open>k * w + 1\<close>, its image embedding
  (when active) at the next row and its scene embedding (when active) at the last row of
  the group, \<open>w\<close> being the layout width. The shuffled order is one permutation of the valid
  indices, used for every column, and every row of the block belongs to the group of a
  slot whose mask is 1.
\<close>

theorem interleaved_block_rows:
  fixes self :: "'e::zero chat3d"
  assumes many: "2 \<le> length (where_eq_1 scene_mask)"
    and cov: "slots_covered self embed_obj embed_img embed_scene scene_mask"
  shows "\<exists>block g'.
     get_object_list_embed self embed_obj embed_img embed_scene scene_mask g = Inr (block, g')
     \<and> (let ids = fst (shuffle (where_eq_1 scene_mask) g);
             w = layout_width embed_img embed_scene
         in mset ids = mset (where_eq_1 scene_mask)
          \<and> length block = length ids * w
          \<and> (\<forall>k < length ids.
                ids ! k < length scene_mask \<and> scene_mask ! (ids ! k) = 1
              \<and> block ! (k * w) = objid_pool self ! (ids ! k)
              \<and> block ! (k * w + 1) = embed_obj ! (ids ! k)
              \<and> (\<forall>t. embed_img = Some t \<longrightarrow> block ! (k * w + 2) = t ! (ids ! k))
              \<and> (\<forall>t. embed_scene = Some t \<longrightarrow> block ! (k * w + (w - 1)) = t ! (ids ! k)))
          \<and> (\<forall>i < length block.
                i div w < length ids \<and> scene_mask ! (ids ! (i div w)) = 1
              \<and> block ! i = object_group (objid_pool self) embed_obj embed_img embed_scene
                               (ids ! (i div w)) ! (i mod w)))"
proof -
  let ?ids = "fst (shuffle (where_eq_1 scene_mask) g)"
  let ?w = "layout_width embed_img embed_scene"
  let ?n = "length (where_eq_1 scene_mask)"
  let ?grp = "object_group (objid_pool self) embed_obj embed_img embed_scene"
  let ?block = "map (\<lambda>i. ?grp (?ids ! (i div ?w)) ! (i mod ?w)) [0..<?n * ?w]"
  have res: "get_object_list_embed self embed_obj embed_img embed_scene scene_mask g
     = Inr (?block, snd (shuffle (where_eq_1 scene_mask) g))"
    by (rule gole_block [OF first_many [OF many] cov])
  have len: "length ?ids = ?n" by (rule shuffle_length)
  have valid: "?ids ! k < length scene_mask \<and> scene_mask ! (?ids ! k) = 1" if "k < ?n" for k
  proof -
    from that len have "?ids ! k \<in> set ?ids" by simp
    then show ?thesis by (simp add: shuffle_set set_where_eq_1)
  qed
  have w2: "2 \<le> ?w" by (simp add: layout_width_def)
  have row: "?block ! (k * ?w + c) = ?grp (?ids ! k) ! c" if "k < ?n" "c < ?w" for k c
    using group_nth [OF that] by simp
  have rows: "?block ! (k * ?w) = objid_pool self ! (?ids ! k)
      \<and> ?block ! (k * ?w + 1) = embed_obj ! (?ids ! k)
      \<and> (\<forall>t. embed_img = Some t \<longrightarrow> ?block ! (k * ?w + 2) = t ! (?ids ! k))
      \<and> (\<forall>t. embed_scene = Some t \<longrightarrow> ?block ! (k * ?w + (?w - 1)) = t ! (?ids ! k))"
    if k: "k < ?n" for k
  proof (intro conjI allI impI)
    show "?block ! (k * ?w) = objid_pool self ! (?ids ! k)"
      using row [OF k, of 0] w2 by (simp add: object_group_def)
    show "?block ! (k * ?w + 1) = embed_obj ! (?ids ! k)"
      using row [OF k, of 1] w2 by (simp add: object_group_def)
    show "?block ! (k * ?w + 2) = t ! (?ids ! k)" if "embed_img = Some t" for t
    proof -
      from that have "2 < ?w" by (simp add: layout_width_def)
      from row [OF k this] object_group_rows(1) [OF that] show ?thesis by (rule trans)
    qed
    show "?block ! (k * ?w + (?w - 1)) = t ! (?ids ! k)" if "embed_scene = Some t" for t
    proof -
      have "?w - 1 < ?w" using w2 by simp
      from row [OF k this] object_group_rows(2) [OF that] show ?thesis by (rule trans)
    qed
  qed
  have every: "i div ?w < length ?ids \<and> scene_mask ! (?ids ! (i div ?w)) = 1
      \<and> ?block ! i = ?grp (?ids ! (i div ?w)) ! (i mod ?w)" if "i < length ?block" for i
  proof -
    from that have i: "i < ?n * ?w" by simp
    then have d: "i div ?w < ?n" by (simp add: less_mult_imp_div_less)
    with valid [OF d] i show ?thesis by (simp add: len)
  qed
  show ?thesis
    unfolding res Let_def
    using valid rows every by (simp add: len shuffle_mset)
qed

theorem interleaved_block_rows_witness:
  "2 \<le> length (where_eq_1 [1, 0, 1])
   \<and> slots_covered demo_model [10, 11, 12] (Some [20, 21, 22]) None [1, 0, 1]
   \<and> (\<exists>block g'.
     get_object_list_embed demo_model [10, 11, 12] (Some [20, 21, 22]) None [1, 0, 1] rng0
       = Inr (block, g')
     \<and> (let ids = fst (shuffle (where_eq_1 [1, 0, 1]) rng0);
             w = layout_width (Some [20, 21, 22 :: real]) None
         in mset ids = mset (where_eq_1 [1, 0, 1])
          \<and> length block = length ids * w
          \<and> (\<forall>k < length ids.
                ids ! k < length [1, 0, 1 :: int] \<and> [1, 0, 1 :: int] ! (ids ! k) = 1
              \<and> block ! (k * w) = objid_pool demo_model ! (ids ! k)
              \<and> block ! (k * w + 1) = [10, 11, 12] ! (ids ! k)
              \<and> (\<forall>t. Some [20, 21, 22] = Some t \<longrightarrow> block ! (k * w + 2) = t ! (ids ! k))
              \<and> (\<forall>t. None = Some t \<longrightarrow> block ! (k * w + (w - 1)) = t ! (ids ! k)))
          \<and> (\<forall>i < length block.
                i div w < length ids \<and> [1, 0, 1 :: int] ! (ids ! (i div w)) = 1
              \<and> block ! i = object_group (objid_pool demo_model) [10, 11, 12]
                               (Some [20, 21, 22]) None (ids ! (i div w)) ! (i mod w))))"
proof -
  have h1: "2 \<le> length (where_eq_1 [1, 0, 1])" by (simp add: where_demo)
  have h2: "slots_covered demo_model [10, 11, 12] (Some [20, 21, 22]) None [1, 0, 1]"
    by (simp add: slots_covered_def pool_demo)
  show ?thesis
    by (intro conjI h1 h2 interleaved_block_rows [OF h1 h2])
qed

text \<open>
  Claim C1 says that a scene with exactly one valid object yields a block of exactly two
  rows, a randomly chosen identifier and the object's embedding, whatever modalities are
  active. The two-row block is built but never returned: control falls through to the
  general layout code, which rebinds the result. With the image modality active and the
  only valid object in slot 1, the call returns the three rows of the general layout (the
  identifier, object and image embedding of slot 1); the identifier is the one of the slot,
  not a random one.
\<close>

theorem single_valid_object_three_rows:
  "get_object_list_embed demo_model [10, 11] (Some [20, 21]) None [0, 1] rng0
     = Inr ([5, 11, 21], rng0\<lparr>pos := 1\<rparr>)"
proof -
  have cov: "slots_covered demo_model [10, 11] (Some [20, 21]) None [0, 1]"
    by (simp add: slots_covered_def pool_demo)
  have p: "200 \<le> length (objid_pool demo_model)" by (simp add: pool_demo)
  show ?thesis
    by (simp add: gole_single [OF where_demo(2) p cov] object_group_def pool_demo
          randbelow_def rng0_def)
qed

text \<open>
  In general, for a single valid object in slot \<open>v\<close> the block is the group of \<open>v\<close> in the
  active layout (two, three or four rows); the random draw of the discarded block only
  advances the generator.
\<close>

lemma single_valid_object_block:
  fixes self :: "'e::zero chat3d"
  assumes "where_eq_1 scene_mask = [v]"
    and "200 \<le> length (objid_pool self)"
    and "slots_covered self embed_obj embed_img embed_scene scene_mask"
  shows "get_object_list_embed self embed_obj embed_img embed_scene scene_mask g
     = Inr (object_group (objid_pool self) embed_obj embed_img embed_scene v,
            snd (randbelow 200 g))"
  using assms by (rule gole_single)

text \<open>
  Claim C7, as amended. For a scene whose validity mask marks no valid object,
  \<open>get_object_list_embed\<close> raises nothing: in every layout it returns the empty block (zero
  rows) and leaves the random source as it was. (The claim as stated, that the call fails
  fast, does not hold: the function has no check of the number of valid objects.)
\<close>

theorem zero_valid_objects_empty_block:
  fixes self :: "'e::zero chat3d"
  assumes "where_eq_1 scene_mask = []"
  shows "get_object_list_embed self embed_obj embed_img embed_scene scene_mask g = Inr ([], g)"
  using assms by (rule gole_zero)

theorem zero_valid_objects_empty_block_witness:
  "where_eq_1 [0, 0] = []
   \<and> get_object_list_embed demo_model [10, 11] None None [0, 0] rng0 = Inr ([], rng0)"
  using zero_valid_objects_empty_block [OF where_demo(3), of demo_model "[10, 11]" None None rng0]
  by (simp add: where_demo)

theorem zero_valid_objects_no_error_counterexample:
  "get_object_list_embed demo_model [10, 11] (Some [20, 21]) None [0, 0] rng0 = Inr ([], rng0)"
  by (rule gole_zero [OF where_demo(3)])

section \<open>Text embedding: the flag changes no value\<close>

lemma bind_eq_Inr: "bind m f = Inr y \<Longrightarrow> \<exists>x. m = Inr x \<and> f x = Inr y"
  by (cases m) simp_all

lemma index_row_Inr: "index_row t i = Inr x \<Longrightarrow> x = t ! i \<and> i < length t"
  by (simp add: index_row_def split: if_splits)

lemma embed_tokens_length: "embed_tokens w ids = Inr e \<Longrightarrow> length e = length ids"
  by (auto simp: embed_tokens_def split: if_splits)

lemma blend_identity:
  fixes e :: "'e::real_vector"
  shows "(1 - m) *\<^sub>R detach e + m *\<^sub>R e = e"
  by (simp add: detach_def scaleR_left_diff_distrib)

lemma map2_blend:
  fixes embeds :: "'e::real_vector list"
  assumes "length indices = length embeds"
  shows "map2 (\<lambda>m e. (1 - real_of_int m) *\<^sub>R detach e + real_of_int m *\<^sub>R e) indices embeds = embeds"
  using assms by (induction indices embeds rule: list_induct2) (simp_all add: blend_identity)

lemma get_text_emb_values:
  fixes self :: "'e::real_vector chat3d"
  shows "get_text_emb self text
     = embed_tokens (weight self) (input_ids (llama_tokenizer self text))"
proof (cases "embed_tokens (weight self) (input_ids (llama_tokenizer self text))")
  case (Inl e)
  then show ?thesis by (simp add: get_text_emb_def)
next
  case (Inr embeds)
  then have "length embeds = length (input_ids (llama_tokenizer self text))"
    by (rule embed_tokens_length)
  then have "map2 (\<lambda>m e. (1 - real_of_int m) *\<^sub>R detach e + real_of_int m *\<^sub>R e)
        (map (\<lambda>t. if t \<ge> ori_vocab_size self then (1::int) else 0)
           (input_ids (llama_tokenizer self text))) embeds = embeds"
    by (intro map2_blend) simp
  moreover have "detach embeds = embeds" by (simp add: detach_def)
  ultimately show ?thesis using Inr by (simp add: get_text_emb_def Let_def)
qed

text \<open>
  Claim C9. For every input text the embedding values returned by \<open>get_text_emb\<close> are the
  same whether \<open>train_emb\<close> is on or off: the per-token blend
  \<open>(1 - m) * detach(e) + m * e\<close> and the full detach are both the identity on values (over
  the reals; on finite floats the products by 0 and 1 and the sum with 0 are exact as well),
  so the flag only routes gradients.
\<close>

theorem get_text_emb_train_emb_irrelevant:
  fixes self :: "'e::real_vector chat3d"
  shows "get_text_emb (self\<lparr>train_emb := True\<rparr>) text
     = get_text_emb (self\<lparr>train_emb := False\<rparr>) text"
  by (simp add: get_text_emb_values)

theorem get_text_emb_train_emb_irrelevant_witness:
  "get_text_emb (demo_model\<lparr>train_emb := True\<rparr>) (of_ascii ''ab'')
     = get_text_emb (demo_model\<lparr>train_emb := False\<rparr>) (of_ascii ''ab'')"
  by (rule get_text_emb_train_emb_irrelevant)

lemma get_text_emb_length:
  fixes self :: "'e::real_vector chat3d"
  shows "get_text_emb self text = Inr e
    \<Longrightarrow> length e = length (input_ids (llama_tokenizer self text))"
  by (simp add: get_text_emb_values embed_tokens_length)

section \<open>Sequence packer: one example\<close>

lemma stage2_example_Inr:
  fixes self :: "'e::real_vector chat3d"
  assumes "stage2_example self inp i question g = Inr ((input_embed, attn, target), g')"
  shows "\<exists>prompt_embed block answer_embed.
      get_text_emb self (example_prompt self question) = Inr prompt_embed
    \<and> get_object_list_embed self (proj_object_embed inp ! i) (example_embed_img self inp i)
          (example_embed_scene self inp i) (scene_masks inp ! i) g = Inr (block, g')
    \<and> get_text_emb self (answers inp ! i @ end_sym self) = Inr answer_embed
    \<and> input_embed = (p_0_embed self @ block @ p_1_embed self @ prompt_embed) @ answer_embed
    \<and> attn = replicate (length (p_0_embed self @ block @ p_1_embed self @ prompt_embed)) 1
          @ attention_mask (llama_tokenizer self (answers inp ! i @ end_sym self))
    \<and> target = replicate (length (p_0_embed self @ block @ p_1_embed self @ prompt_embed)) (- 100)
          @ map (\<lambda>t. if t = pad_token_id self then - 100 else t)
              (input_ids (llama_tokenizer self (answers inp ! i @ end_sym self)))"
  using assms
  by (auto simp: stage2_example_def Let_def bind_def index_row_def example_prompt_def
        example_embed_img_def example_embed_scene_def
      split: sum.splits if_splits prod.splits)


lemma shuffle_demo2:
  "fst (shuffle [0, Suc 0] rng0) = [Suc 0, 0]"
  "snd (shuffle [0, Suc 0] rng0) = rng0\<lparr>pos := 1\<rparr>"
  by (simp_all add: shuffle_def randbelow_def rng0_def)

lemma upt_6: "[0..<6] = [0, 1, 2, 3, 4, 5]"
  by code_simp

lemma where_demo2: "where_eq_1 [1, 1] = [0, Suc 0]"
  by code_simp

lemma pool_demo_nth:
  "length (objid_pool demo_model) = 200"
  "k < 200 \<Longrightarrow> objid_pool demo_model ! k = real (4 + k)"
  by (simp_all add: objid_pool_def demo_model_def slice_def drop_map take_map
        del: upt_rec_numeral)

lemma demo_fields:
  "llama_tokenizer demo_model = demo_tokenizer"
  "add_img_token demo_model" "\<not> add_scene_token demo_model" "pad_token_id demo_model = 0"
  "end_sym demo_model = of_ascii ''</s>''" "role_1 demo_model = of_ascii ''ASSISTANT''"
  "p_0_embed demo_model = [1, 2]" "p_1_embed demo_model = [3]"
  by (simp_all add: demo_model_def)

lemma demo_text_emb:
  "get_text_emb demo_model text = Inr (map (\<lambda>c. real (c mod 4)) text)"
proof -
  have w: "weight demo_model = map real [0..<204]" by (simp add: demo_model_def)
  have "list_all (\<lambda>t. 0 \<le> t \<and> nat t < length (weight demo_model))
          (map (\<lambda>c. int (c mod 4)) text)"
    unfolding w list_all_iff
  proof
    fix t assume "t \<in> set (map (\<lambda>c. int (c mod 4)) text)"
    then obtain c where "t = int (c mod 4)" by auto
    moreover have "c mod 4 < 204" by (rule less_trans [of _ 4]) simp_all
    ultimately show "0 \<le> t \<and> nat t < length (map real [0..<204])" by simp
  qed
  moreover have "map real [0..<204] ! (c mod 4) = real (c mod 4)" for c
  proof -
    have "c mod 4 < 204" by (rule less_trans [of _ 4]) simp_all
    then show ?thesis by (simp del: upt_rec_numeral)
  qed
  ultimately show ?thesis
    by (simp add: get_text_emb_values embed_tokens_def demo_fields demo_tokenizer_def w
          comp_def del: upt_rec_numeral)
qed

lemma demo_gole:
  "get_object_list_embed demo_model [10, 11] (Some [20, 21]) None [1, 1] rng0
     = Inr ([5, 11, 21, 4, 10, 20], rng0\<lparr>pos := 1\<rparr>)"
proof -
  have first: "(if length (where_eq_1 [1, 1]) = 1
            then bind (single_block demo_model [10, 11] rng0) (\<lambda>(b, g'). Inr (Some b, g'))
            else Inr (None, rng0)) = Inr (None, rng0)"
    by (simp add: where_demo2)
  have cov: "slots_covered demo_model [10, 11] (Some [20, 21]) None [1, 1]"
    by (simp add: slots_covered_def pool_demo_nth)
  show ?thesis
    by (simp add: gole_block [OF first cov] where_demo2 shuffle_demo2 layout_width_def
          object_group_def pool_demo_nth upt_6)
qed

lemma replicate_numeral: "replicate (numeral k) x = x # replicate (pred_numeral k) x"
  by (simp add: numeral_eq_Suc)

lemma demo_example:
  "stage2_example demo_model demo_inputs 0 (of_ascii ''q'') rng0
     = Inr ((demo_input_embed, demo_attn, demo_target), rng0\<lparr>pos := 1\<rparr>)"
  by (simp add: stage2_example_def Let_def demo_text_emb demo_fields
        demo_tokenizer_def of_ascii_def demo_inputs_def index_row_def demo_gole
        demo_input_embed_def demo_attn_def demo_target_def replicate_numeral)

text \<open>
  Claim C5. In every example packed by \<open>forward_stage2\<close>, before the batch is padded, the
  labels of all positions of the prefix, the object block, the suffix and the prompt are
  the ignore sentinel -100; the label of each answer position is the answer token id,
  except where that token is the tokenizer's pad token, where it is -100.
\<close>

theorem packed_labels:
  fixes self :: "'e::real_vector chat3d"
  assumes "stage2_example self inp i question g = Inr ((input_embed, attn, target), g')"
  shows "\<exists>prompt_embed block answer_embed.
      get_text_emb self (example_prompt self question) = Inr prompt_embed
    \<and> get_object_list_embed self (proj_object_embed inp ! i) (example_embed_img self inp i)
          (example_embed_scene self inp i) (scene_masks inp ! i) g = Inr (block, g')
    \<and> get_text_emb self (answers inp ! i @ end_sym self) = Inr answer_embed
    \<and> input_embed = p_0_embed self @ block @ p_1_embed self @ prompt_embed @ answer_embed
    \<and> (let answer_ids = input_ids (llama_tokenizer self (answers inp ! i @ end_sym self));
           n = length (p_0_embed self) + length block + length (p_1_embed self)
                 + length prompt_embed
       in length answer_embed = length answer_ids
        \<and> length target = n + length answer_ids
        \<and> (\<forall>j<n. target ! j = - 100)
        \<and> (\<forall>j<length answer_ids.
              target ! (n + j)
                = (if answer_ids ! j = pad_token_id self then - 100 else answer_ids ! j)))"
proof -
  from stage2_example_Inr [OF assms] obtain prompt_embed block answer_embed where
    1: "get_text_emb self (example_prompt self question) = Inr prompt_embed"
    and 2: "get_object_list_embed self (proj_object_embed inp ! i) (example_embed_img self inp i)
          (example_embed_scene self inp i) (scene_masks inp ! i) g = Inr (block, g')"
    and 3: "get_text_emb self (answers inp ! i @ end_sym self) = Inr answer_embed"
    and 4: "input_embed = (p_0_embed self @ block @ p_1_embed self @ prompt_embed) @ answer_embed"
    and 5: "target = replicate (length (p_0_embed self @ block @ p_1_embed self @ prompt_embed)) (- 100)
          @ map (\<lambda>t. if t = pad_token_id self then - 100 else t)
              (input_ids (llama_tokenizer self (answers inp ! i @ end_sym self)))"
    by blast
  have 6: "length answer_embed
     = length (input_ids (llama_tokenizer self (answers inp ! i @ end_sym self)))"
    using 3 by (rule get_text_emb_length)
  define n where "n = length (p_0_embed self) + length block + length (p_1_embed self)
                 + length prompt_embed"
  define ids where "ids = input_ids (llama_tokenizer self (answers inp ! i @ end_sym self))"
  have t: "target = replicate n (- 100) @ map (\<lambda>t. if t = pad_token_id self then - 100 else t) ids"
    using 5 by (simp add: n_def ids_def)
  have a: "\<forall>j<n. target ! j = - 100" by (simp add: t nth_append)
  have "(replicate n (- 100) @ map (\<lambda>t. if t = pad_token_id self then - 100 else t) ids)
          ! (length (replicate n (- 100 :: int)) + j)
        = map (\<lambda>t. if t = pad_token_id self then - 100 else t) ids ! j" for j
    by (rule nth_append_length_plus)
  then have b: "\<forall>j<length ids. target ! (n + j)
       = (if ids ! j = pad_token_id self then - 100 else ids ! j)"
    by (simp add: t)
  have c: "length target = n + length ids" by (simp add: t)
  have d: "input_embed = p_0_embed self @ block @ p_1_embed self @ prompt_embed @ answer_embed"
    using 4 by simp
  from 1 2 3 d 6 a b c show ?thesis
    unfolding Let_def n_def ids_def by blast
qed

theorem packed_labels_witness:
  "stage2_example demo_model demo_inputs 0 (of_ascii ''q'') rng0
     = Inr ((demo_input_embed, demo_attn, demo_target), rng0\<lparr>pos := 1\<rparr>)
   \<and> (\<exists>prompt_embed block answer_embed.
      get_text_emb demo_model (example_prompt demo_model (of_ascii ''q'')) = Inr prompt_embed
    \<and> get_object_list_embed demo_model (proj_object_embed demo_inputs ! 0)
          (example_embed_img demo_model demo_inputs 0)
          (example_embed_scene demo_model demo_inputs 0) (scene_masks demo_inputs ! 0) rng0
        = Inr (block, rng0\<lparr>pos := 1\<rparr>)
    \<and> get_text_emb demo_model (answers demo_inputs ! 0 @ end_sym demo_model) = Inr answer_embed
    \<and> demo_input_embed
        = p_0_embed demo_model @ block @ p_1_embed demo_model @ prompt_embed @ answer_embed
    \<and> (let answer_ids = input_ids (llama_tokenizer demo_model
                               (answers demo_inputs ! 0 @ end_sym demo_model));
           n = length (p_0_embed demo_model) + length block + length (p_1_embed demo_model)
                 + length prompt_embed
       in length answer_embed = length answer_ids
        \<and> length demo_target = n + length answer_ids
        \<and> (\<forall>j<n. demo_target ! j = - 100)
        \<and> (\<forall>j<length answer_ids.
              demo_target ! (n + j)
                = (if answer_ids ! j = pad_token_id demo_model then - 100
                   else answer_ids ! j))))"
  by (intro conjI demo_example packed_labels [OF demo_example])

text \<open>
  An example whose scene has no valid object is packed all the same, with an empty object
  block between prefix and suffix.
\<close>

lemma stage2_example_zero_valid:
  fixes self :: "'e::real_vector chat3d"
  assumes zero: "where_eq_1 (scene_masks inp ! i) = []"
    and idx: "i < length (proj_object_embed inp)" "i < length (scene_masks inp)"
      "i < length (answers inp)"
      "add_img_token self \<Longrightarrow> i < length (proj_object_img_embed inp)"
      "add_scene_token self \<Longrightarrow> i < length (scene_embed inp)"
    and prompt: "get_text_emb self (example_prompt self question) = Inr prompt_embed"
    and answer: "get_text_emb self (answers inp ! i @ end_sym self) = Inr answer_embed"
  shows "\<exists>attn target. stage2_example self inp i question g
     = Inr ((p_0_embed self @ p_1_embed self @ prompt_embed @ answer_embed, attn, target), g)"
  using idx prompt answer
  by (simp add: stage2_example_def Let_def index_row_def gole_zero [OF zero]
        example_prompt_def)

section \<open>Sequence packer: padding and truncation of the batch\<close>

lemma foldr_max_Max: "ls \<noteq> [] \<Longrightarrow> foldr max ls (0::nat) = Max (set ls)"
proof (induction ls)
  case Nil
  then show ?case by simp
next
  case (Cons a ls)
  show ?case
  proof (cases "ls = []")
    case True
    then show ?thesis by simp
  next
    case False
    with Cons.IH show ?thesis by simp
  qed
qed

lemma foldr_max_ge: "l \<in> set ls \<Longrightarrow> l \<le> foldr max ls (0::nat)"
  by (induction ls) auto

lemma pad_sequence_Inr:
  assumes "xs \<noteq> []"
  shows "pad_sequence xs p = Inr (map (\<lambda>t. t @ replicate (longest xs - length t) p) xs)"
  using assms by (simp add: pad_sequence_def longest_def Let_def)

lemma length_le_longest: "x \<in> set xs \<Longrightarrow> length x \<le> longest xs"
  unfolding longest_def by (rule foldr_max_ge) simp

lemma shape1_padded:
  assumes "xs \<noteq> []"
  shows "shape1 (map (\<lambda>t. t @ replicate (longest xs - length t) p) xs) = longest xs"
proof -
  from assms have "hd xs \<in> set xs" by simp
  then have "length (hd xs) \<le> longest xs" by (rule length_le_longest)
  then show ?thesis using assms by (simp add: shape1_def hd_map)
qed

lemma take_padded:
  assumes "m \<le> L" "length x \<le> L"
  shows "take m (x @ replicate (L - length x) p) = take m x @ replicate (m - length x) p"
  using assms by (simp add: min_def)

lemma pad_and_trim_rows:
  assumes ne: "xs \<noteq> []" and m: "m \<le> longest xs"
  shows "pad_and_trim xs m p = Inr (map (\<lambda>x. take m x @ replicate (m - length x) p) xs)"
proof -
  have row: "take m (x @ replicate (longest xs - length x) p)
      = take m x @ replicate (m - length x) p" if "x \<in> set xs" for x
    using m length_le_longest [OF that] by (rule take_padded)
  show ?thesis
  proof (cases "longest xs > m")
    case True
    then show ?thesis
      using row by (simp add: pad_and_trim_def pad_sequence_Inr [OF ne] shape1_padded [OF ne])
  next
    case False
    with m have eq: "m = longest xs" by simp
    have "x @ replicate (longest xs - length x) p
        = take m x @ replicate (m - length x) p" if "x \<in> set xs" for x
      using length_le_longest [OF that] by (simp add: eq)
    then show ?thesis
      using False by (simp add: pad_and_trim_def pad_sequence_Inr [OF ne] shape1_padded [OF ne])
  qed
qed


lemma longest_snoc: "longest (xs @ [x]) = max (longest xs) (length x)"
  unfolding longest_def by (induction xs) (simp_all add: max.assoc max.commute max.left_commute)

lemma stage2_example_lengths:
  fixes self :: "'e::real_vector chat3d"
  assumes "tokenizer_aligned self"
    and "stage2_example self inp i question g = Inr ((input_embed, attn, target), g')"
  shows "length input_embed = length target \<and> length attn = length target"
proof -
  from stage2_example_Inr [OF assms(2)] obtain prompt_embed block answer_embed where
    3: "get_text_emb self (answers inp ! i @ end_sym self) = Inr answer_embed"
    and 4: "input_embed = (p_0_embed self @ block @ p_1_embed self @ prompt_embed) @ answer_embed"
    and 5: "attn = replicate (length (p_0_embed self @ block @ p_1_embed self @ prompt_embed)) 1
          @ attention_mask (llama_tokenizer self (answers inp ! i @ end_sym self))"
    and 6: "target = replicate (length (p_0_embed self @ block @ p_1_embed self @ prompt_embed)) (- 100)
          @ map (\<lambda>t. if t = pad_token_id self then - 100 else t)
              (input_ids (llama_tokenizer self (answers inp ! i @ end_sym self)))"
    by blast
  from assms(1) have "length (attention_mask (llama_tokenizer self (answers inp ! i @ end_sym self)))
     = length (input_ids (llama_tokenizer self (answers inp ! i @ end_sym self)))"
    by (simp add: tokenizer_aligned_def)
  with get_text_emb_length [OF 3] show ?thesis by (simp add: 4 5 6)
qed

lemma stage2_loop_aligned:
  fixes self :: "'e::real_vector chat3d"
  assumes "tokenizer_aligned self"
  shows "stage2_loop self inp qs acc g = Inr (acc', g') \<Longrightarrow> acc_aligned acc
    \<Longrightarrow> acc_aligned acc' \<and> length (target_list acc') = length (target_list acc) + length qs"
proof (induction qs arbitrary: acc g)
  case Nil
  then show ?case by simp
next
  case (Cons q qs)
  obtain i question where q: "q = (i, question)" by (cases q)
  from Cons.prems(1) obtain input_embed attn target g1 where
    ex: "stage2_example self inp i question g = Inr ((input_embed, attn, target), g1)"
    and rest: "stage2_loop self inp qs
         \<lparr>input_embed_list = input_embed_list acc @ [input_embed],
          attn_list = attn_list acc @ [attn],
          target_list = target_list acc @ [target],
          max_seq_len = max (max_seq_len acc) (length target)\<rparr> g1 = Inr (acc', g')"
    unfolding q by (auto dest!: bind_eq_Inr)
  from stage2_example_lengths [OF assms ex] Cons.prems(2)
  have "acc_aligned \<lparr>input_embed_list = input_embed_list acc @ [input_embed],
          attn_list = attn_list acc @ [attn],
          target_list = target_list acc @ [target],
          max_seq_len = max (max_seq_len acc) (length target)\<rparr>"
    by (simp add: acc_aligned_def longest_snoc)
  from Cons.IH [OF rest this] show ?case by simp
qed

lemma map_length_longest: "map length xs = map length ys \<Longrightarrow> longest xs = longest ys"
  by (simp add: longest_def)

text \<open>
  The loop appends one packed example per question, each of them a result of
  \<open>stage2_example\<close> for that question.
\<close>

lemma stage2_loop_entries:
  fixes self :: "'e::real_vector chat3d"
  shows "stage2_loop self inp qs acc g = Inr (acc', g')
    \<Longrightarrow> \<exists>ies ats tgs.
          input_embed_list acc' = input_embed_list acc @ ies
        \<and> attn_list acc' = attn_list acc @ ats
        \<and> target_list acc' = target_list acc @ tgs
        \<and> length ies = length qs \<and> length ats = length qs \<and> length tgs = length qs
        \<and> (\<forall>k<length qs. \<exists>gk gk'.
              stage2_example self inp (fst (qs ! k)) (snd (qs ! k)) gk
                = Inr ((ies ! k, ats ! k, tgs ! k), gk'))"
proof (induction qs arbitrary: acc g)
  case Nil
  then show ?case by simp
next
  case (Cons q qs)
  obtain i question where q: "q = (i, question)" by (cases q)
  let ?acc1 = "\<lambda>input_embed attn target.
         \<lparr>input_embed_list = input_embed_list acc @ [input_embed],
          attn_list = attn_list acc @ [attn],
          target_list = target_list acc @ [target],
          max_seq_len = max (max_seq_len acc) (length target)\<rparr>"
  from Cons.prems obtain input_embed attn target g1 where
    ex: "stage2_example self inp i question g = Inr ((input_embed, attn, target), g1)"
    and rest: "stage2_loop self inp qs (?acc1 input_embed attn target) g1 = Inr (acc', g')"
    unfolding q by (auto dest!: bind_eq_Inr)
  from Cons.IH [OF rest] obtain ies ats tgs where
    l: "input_embed_list acc' = (input_embed_list acc @ [input_embed]) @ ies"
      "attn_list acc' = (attn_list acc @ [attn]) @ ats"
      "target_list acc' = (target_list acc @ [target]) @ tgs"
    and n: "length ies = length qs" "length ats = length qs" "length tgs = length qs"
    and e: "\<forall>k<length qs. \<exists>gk gk'.
              stage2_example self inp (fst (qs ! k)) (snd (qs ! k)) gk
                = Inr ((ies ! k, ats ! k, tgs ! k), gk')"
    by auto
  have "\<exists>gk gk'. stage2_example self inp (fst ((q # qs) ! k)) (snd ((q # qs) ! k)) gk
       = Inr (((input_embed # ies) ! k, (attn # ats) ! k, (target # tgs) ! k), gk')"
    if "k < length (q # qs)" for k
  proof (cases k)
    case 0
    with ex q show ?thesis by auto
  next
    case (Suc k')
    with that e show ?thesis by simp
  qed
  with l n show ?case
    by (intro exI [of _ "input_embed # ies"] exI [of _ "attn # ats"] exI [of _ "target # tgs"])
       simp
qed

text \<open>
  The loop on the two-example batch: the generator advances once per example, and the
  packed sequences have 756 and 770 positions.
\<close>

lemma long_fields:
  "weight demo_model_long = weight demo_model"
  "objid_pool demo_model_long = objid_pool demo_model"
  "llama_tokenizer demo_model_long = demo_tokenizer"
  "add_img_token demo_model_long" "\<not> add_scene_token demo_model_long"
  "pad_token_id demo_model_long = 0"
  "end_sym demo_model_long = of_ascii ''</s>''" "role_1 demo_model_long = of_ascii ''ASSISTANT''"
  "p_0_embed demo_model_long = replicate 730 1" "p_1_embed demo_model_long = [3]"
  by (simp_all add: demo_model_long_def demo_fields objid_pool_def)

lemma long_text_emb: "get_text_emb demo_model_long text = Inr (demo_rows text)"
proof -
  have "get_text_emb demo_model_long text = get_text_emb demo_model text"
    by (simp add: get_text_emb_values long_fields demo_fields)
  then show ?thesis by (simp add: demo_text_emb demo_rows_def)
qed

lemma shuffle_demo_at:
  "fst (shuffle [0, Suc 0] (rng0\<lparr>pos := n\<rparr>)) = [Suc 0, 0]"
  "snd (shuffle [0, Suc 0] (rng0\<lparr>pos := n\<rparr>)) = rng0\<lparr>pos := Suc n\<rparr>"
  by (simp_all add: shuffle_def randbelow_def rng0_def)

lemma long_gole:
  "get_object_list_embed demo_model_long [a0, a1] (Some [b0, b1]) None [1, 1] (rng0\<lparr>pos := n\<rparr>)
     = Inr ([5, a1, b1, 4, a0, b0], rng0\<lparr>pos := Suc n\<rparr>)"
proof -
  have first: "(if length (where_eq_1 [1, 1]) = 1
            then bind (single_block demo_model_long [a0, a1] (rng0\<lparr>pos := n\<rparr>))
                   (\<lambda>(b, g'). Inr (Some b, g'))
            else Inr (None, rng0\<lparr>pos := n\<rparr>)) = Inr (None, rng0\<lparr>pos := n\<rparr>)"
    by (simp add: where_demo2)
  have cov: "slots_covered demo_model_long [a0, a1] (Some [b0, b1]) None [1, 1]"
    by (simp add: slots_covered_def long_fields pool_demo_nth)
  show ?thesis
    by (simp add: gole_block [OF first cov] where_demo2 shuffle_demo_at layout_width_def
          object_group_def long_fields pool_demo_nth upt_6)
qed

lemma rng0_pos0: "rng0 = rng0\<lparr>pos := 0\<rparr>"
  by (simp add: rng0_def)

lemma long_example_0:
  "stage2_example demo_model_long demo_long_inputs 0 (of_ascii ''q'') rng0
     = Inr ((input_embed_list demo_long_acc ! 0, attn_list demo_long_acc ! 0,
             target_list demo_long_acc ! 0), rng0\<lparr>pos := 1\<rparr>)"
  apply (subst rng0_pos0)
  apply (simp add: stage2_example_def Let_def long_text_emb long_fields demo_tokenizer_def
        of_ascii_def demo_long_inputs_def index_row_def long_gole demo_long_acc_def
        demo_rows_def)
  done

lemma long_example_1:
  "stage2_example demo_model_long demo_long_inputs 1 (of_ascii ''what is this'')
       (rng0\<lparr>pos := 1\<rparr>)
     = Inr ((input_embed_list demo_long_acc ! 1, attn_list demo_long_acc ! 1,
             target_list demo_long_acc ! 1), rng0\<lparr>pos := 2\<rparr>)"
  by (simp add: stage2_example_def Let_def long_text_emb long_fields demo_tokenizer_def
        of_ascii_def demo_long_inputs_def index_row_def long_gole demo_long_acc_def
        demo_rows_def)


lemma long_tokenizer_aligned: "tokenizer_aligned demo_model_long"
  by (simp add: tokenizer_aligned_def long_fields demo_tokenizer_def)

lemma long_questions: "questions demo_long_inputs \<noteq> []"
  by (simp add: demo_long_inputs_def)

lemma long_lengths:
  "map length (input_embed_list demo_long_acc) = [756, 770]"
  "map length (attn_list demo_long_acc) = [756, 770]"
  "map length (target_list demo_long_acc) = [756, 770]"
  by (simp_all add: demo_long_acc_def demo_rows_def of_ascii_def)

lemma long_loop:
  "stage2_loop demo_model_long demo_long_inputs (enumerate 0 (questions demo_long_inputs))
     \<lparr>input_embed_list = [], attn_list = [], target_list = [], max_seq_len = 0\<rparr> rng0
     = Inr (demo_long_acc, rng0\<lparr>pos := 2\<rparr>)"
proof -
  have q: "enumerate 0 (questions demo_long_inputs)
      = [(0, of_ascii ''q''), (1, of_ascii ''what is this'')]"
    by (simp add: demo_long_inputs_def)
  show ?thesis
    unfolding q
    apply (simp only: stage2_loop.simps long_example_0 long_example_1 bind_Inr prod.case)
    apply (simp add: demo_long_acc_def demo_rows_def of_ascii_def)
    done
qed


lemma long_entry_lengths:
  "length (input_embed_list demo_long_acc ! 0) = 756"
  "length (attn_list demo_long_acc ! 0) = 756"
  "length (target_list demo_long_acc ! 0) = 756"
  "length (input_embed_list demo_long_acc ! 1) = 770"
  "length (attn_list demo_long_acc ! 1) = 770"
  "length (target_list demo_long_acc ! 1) = 770"
  by (simp_all add: demo_long_acc_def demo_rows_def of_ascii_def)

text \<open>
  Claim C4. For a (non-empty) training batch, \<open>forward_stage2\<close> takes \<open>max_seq_len\<close> to be
  the minimum of 768 and the longest packed sequence of the batch; the embedding, mask and
  label tensors it hands to the language model all have \<open>batch\<close> rows of \<open>max_seq_len\<close>
  positions; a shorter example is padded on the right, with 0 for embeddings and mask and
  -100 for labels; a longer example keeps its first \<open>max_seq_len\<close> positions. (The lists
  of \<open>acc\<close> are the packed examples the loop has built; the tokenizer is assumed to return
  an attention mask as long as its token ids.)
\<close>

theorem stage2_batch_padding:
  fixes self :: "'e::real_vector chat3d"
  assumes tok: "tokenizer_aligned self"
    and ne: "questions inp \<noteq> []"
    and loop: "stage2_loop self inp (enumerate 0 (questions inp))
             \<lparr>input_embed_list = [], attn_list = [], target_list = [], max_seq_len = 0\<rparr> g
           = Inr (acc, g')"
  shows "\<exists>out. forward_stage2 self inp g = Inr (out, g')
     \<and> (let B = length (questions inp);
             m = min 768 (Max (set (map length (target_list acc))))
         in out_max_seq_len out = m
          \<and> length (target_list acc) = B
          \<and> length (inputs_embeds out) = B \<and> length (lm_attention_mask out) = B
          \<and> length (labels out) = B
          \<and> (\<forall>b<B.
                length (input_embed_list acc ! b) = length (target_list acc ! b)
              \<and> length (attn_list acc ! b) = length (target_list acc ! b)
              \<and> length (inputs_embeds out ! b) = m
              \<and> length (lm_attention_mask out ! b) = m
              \<and> length (labels out ! b) = m
              \<and> inputs_embeds out ! b
                  = take m (input_embed_list acc ! b)
                    @ replicate (m - length (input_embed_list acc ! b)) 0
              \<and> lm_attention_mask out ! b
                  = take m (attn_list acc ! b) @ replicate (m - length (attn_list acc ! b)) 0
              \<and> labels out ! b
                  = take m (target_list acc ! b)
                    @ replicate (m - length (target_list acc ! b)) (- 100)))"
proof -
  let ?B = "length (questions inp)"
  have init: "acc_aligned \<lparr>input_embed_list = ([] :: 'e list list), attn_list = [],
      target_list = [], max_seq_len = 0\<rparr>"
    by (simp add: acc_aligned_def longest_def)
  from stage2_loop_aligned [OF tok loop init]
  have al: "acc_aligned acc" and len: "length (target_list acc) = ?B" by simp_all
  from al have mi: "map length (input_embed_list acc) = map length (target_list acc)"
    and ma: "map length (attn_list acc) = map length (target_list acc)"
    and ms: "max_seq_len acc = longest (target_list acc)"
    by (simp_all add: acc_aligned_def)
  from mi ma len have li: "length (input_embed_list acc) = ?B" and la: "length (attn_list acc) = ?B"
    by (metis length_map)+
  from ne len li la have nes: "target_list acc \<noteq> []" "input_embed_list acc \<noteq> []" "attn_list acc \<noteq> []"
    by auto
  let ?L = "longest (target_list acc)"
  let ?m = "min 768 ?L"
  have L: "?L = Max (set (map length (target_list acc)))"
    unfolding longest_def using nes(1) by (intro foldr_max_Max) simp
  have m1: "?m \<le> longest (target_list acc)" by simp
  have m2: "?m \<le> longest (input_embed_list acc)" by (simp add: map_length_longest [OF mi])
  have m3: "?m \<le> longest (attn_list acc)" by (simp add: map_length_longest [OF ma])
  have res: "forward_stage2 self inp g = Inr (\<lparr>inputs_embeds =
        map (\<lambda>x. take ?m x @ replicate (?m - length x) 0) (input_embed_list acc),
      lm_attention_mask = map (\<lambda>x. take ?m x @ replicate (?m - length x) 0) (attn_list acc),
      labels = map (\<lambda>x. take ?m x @ replicate (?m - length x) (- 100)) (target_list acc),
      out_max_seq_len = ?m\<rparr>, g')"
    by (simp add: forward_stage2_def loop Let_def ms pad_and_trim_rows [OF nes(1) m1]
          pad_and_trim_rows [OF nes(2) m2] pad_and_trim_rows [OF nes(3) m3])
  have eqlen: "length (input_embed_list acc ! b) = length (target_list acc ! b)
      \<and> length (attn_list acc ! b) = length (target_list acc ! b)" if "b < ?B" for b
  proof -
    from that li have "map length (input_embed_list acc) ! b = length (input_embed_list acc ! b)"
      by simp
    moreover from that len have "map length (target_list acc) ! b = length (target_list acc ! b)"
      by simp
    moreover from that la have "map length (attn_list acc) ! b = length (attn_list acc ! b)"
      by simp
    ultimately show ?thesis using mi ma by simp
  qed
  have ar: "min a k + (k - a) = k" for a k :: nat by arith
  show ?thesis
    unfolding res Let_def L [symmetric]
    using eqlen by (simp add: len li la ar)
qed

text \<open>
  On that batch \<open>max_seq_len\<close> is 768: the first example is padded on the right by 12
  positions (0 for embeddings and mask, -100 for labels), the second keeps its first 768
  positions.
\<close>

theorem stage2_batch_padding_witness:
  "tokenizer_aligned demo_model_long
   \<and> questions demo_long_inputs \<noteq> []
   \<and> stage2_loop demo_model_long demo_long_inputs (enumerate 0 (questions demo_long_inputs))
         \<lparr>input_embed_list = [], attn_list = [], target_list = [], max_seq_len = 0\<rparr> rng0
       = Inr (demo_long_acc, rng0\<lparr>pos := 2\<rparr>)
   \<and> map length (target_list demo_long_acc) = [756, 770]
   \<and> (\<exists>out. forward_stage2 demo_model_long demo_long_inputs rng0
               = Inr (out, rng0\<lparr>pos := 2\<rparr>)
       \<and> out_max_seq_len out = 768
       \<and> length (inputs_embeds out) = 2 \<and> length (lm_attention_mask out) = 2
       \<and> length (labels out) = 2
       \<and> length (inputs_embeds out ! 0) = 768 \<and> length (inputs_embeds out ! 1) = 768
       \<and> length (lm_attention_mask out ! 0) = 768 \<and> length (lm_attention_mask out ! 1) = 768
       \<and> length (labels out ! 0) = 768 \<and> length (labels out ! 1) = 768
       \<and> inputs_embeds out ! 0 = input_embed_list demo_long_acc ! 0 @ replicate 12 0
       \<and> lm_attention_mask out ! 0 = attn_list demo_long_acc ! 0 @ replicate 12 0
       \<and> labels out ! 0 = target_list demo_long_acc ! 0 @ replicate 12 (- 100)
       \<and> inputs_embeds out ! 1 = take 768 (input_embed_list demo_long_acc ! 1)
       \<and> lm_attention_mask out ! 1 = take 768 (attn_list demo_long_acc ! 1)
       \<and> labels out ! 1 = take 768 (target_list demo_long_acc ! 1))"
proof -
  have M: "min 768 (Max (set (map length (target_list demo_long_acc)))) = 768"
    by (simp add: long_lengths)
  have B: "length (questions demo_long_inputs) = 2" by (simp add: demo_long_inputs_def)
  from stage2_batch_padding [OF long_tokenizer_aligned long_questions long_loop]
  obtain out where
    o: "forward_stage2 demo_model_long demo_long_inputs rng0 = Inr (out, rng0\<lparr>pos := 2\<rparr>)"
    and m: "out_max_seq_len out = 768"
    and n: "length (inputs_embeds out) = 2" "length (lm_attention_mask out) = 2"
      "length (labels out) = 2"
    and rows: "\<forall>b<2.
                length (inputs_embeds out ! b) = 768
              \<and> length (lm_attention_mask out ! b) = 768
              \<and> length (labels out ! b) = 768
              \<and> inputs_embeds out ! b
                  = take 768 (input_embed_list demo_long_acc ! b)
                    @ replicate (768 - length (input_embed_list demo_long_acc ! b)) 0
              \<and> lm_attention_mask out ! b
                  = take 768 (attn_list demo_long_acc ! b)
                    @ replicate (768 - length (attn_list demo_long_acc ! b)) 0
              \<and> labels out ! b
                  = take 768 (target_list demo_long_acc ! b)
                    @ replicate (768 - length (target_list demo_long_acc ! b)) (- 100)"
    unfolding Let_def M B by blast
  from rows have r0: "length (inputs_embeds out ! 0) = 768
      \<and> length (lm_attention_mask out ! 0) = 768 \<and> length (labels out ! 0) = 768
      \<and> inputs_embeds out ! 0 = input_embed_list demo_long_acc ! 0 @ replicate 12 0
      \<and> lm_attention_mask out ! 0 = attn_list demo_long_acc ! 0 @ replicate 12 0
      \<and> labels out ! 0 = target_list demo_long_acc ! 0 @ replicate 12 (- 100)"
    using spec [OF rows, of 0] by (simp add: long_entry_lengths)
  from rows have r1: "length (inputs_embeds out ! 1) = 768
      \<and> length (lm_attention_mask out ! 1) = 768 \<and> length (labels out ! 1) = 768
      \<and> inputs_embeds out ! 1 = take 768 (input_embed_list demo_long_acc ! 1)
      \<and> lm_attention_mask out ! 1 = take 768 (attn_list demo_long_acc ! 1)
      \<and> labels out ! 1 = take 768 (target_list demo_long_acc ! 1)"
    using spec [OF rows, of 1] by (simp add: long_entry_lengths [unfolded One_nat_def])
  from o m n r0 r1 have "\<exists>out. forward_stage2 demo_model_long demo_long_inputs rng0
               = Inr (out, rng0\<lparr>pos := 2\<rparr>)
       \<and> out_max_seq_len out = 768
       \<and> length (inputs_embeds out) = 2 \<and> length (lm_attention_mask out) = 2
       \<and> length (labels out) = 2
       \<and> length (inputs_embeds out ! 0) = 768 \<and> length (inputs_embeds out ! 1) = 768
       \<and> length (lm_attention_mask out ! 0) = 768 \<and> length (lm_attention_mask out ! 1) = 768
       \<and> length (labels out ! 0) = 768 \<and> length (labels out ! 1) = 768
       \<and> inputs_embeds out ! 0 = input_embed_list demo_long_acc ! 0 @ replicate 12 0
       \<and> lm_attention_mask out ! 0 = attn_list demo_long_acc ! 0 @ replicate 12 0
       \<and> labels out ! 0 = target_list demo_long_acc ! 0 @ replicate 12 (- 100)
       \<and> inputs_embeds out ! 1 = take 768 (input_embed_list demo_long_acc ! 1)
       \<and> lm_attention_mask out ! 1 = take 768 (attn_list demo_long_acc ! 1)
       \<and> labels out ! 1 = take 768 (target_list demo_long_acc ! 1)"
    by blast
  with long_tokenizer_aligned long_questions long_loop long_lengths(3) show ?thesis
    by (intro conjI)
qed

section \<open>Box corners and their extents\<close>

lemma construct_bbox_corners_value:
  "construct_bbox_corners [cx, cy, cz] [sx, sy, sz] =
     Inr [[sx / 2 + cx, sy / 2 + cy, sz / 2 + cz],
          [sx / 2 + cx, - sy / 2 + cy, sz / 2 + cz],
          [- sx / 2 + cx, - sy / 2 + cy, sz / 2 + cz],
          [- sx / 2 + cx, sy / 2 + cy, sz / 2 + cz],
          [sx / 2 + cx, sy / 2 + cy, - sz / 2 + cz],
          [sx / 2 + cx, - sy / 2 + cy, - sz / 2 + cz],
          [- sx / 2 + cx, - sy / 2 + cy, - sz / 2 + cz],
          [- sx / 2 + cx, sy / 2 + cy, - sz / 2 + cz]]"
  by (simp add: construct_bbox_corners_def index_row_def np_transpose_def Let_def
        upt_rec [of 0] upt_rec [of "Suc _"] nth_Cons')

text \<open>
  Claim C10. For every center \<open>c\<close> and every non-negative box size \<open>s\<close>,
  \<open>get_box3d_min_max\<close> applied to \<open>construct_bbox_corners(c, s)\<close> returns
  \<open>(c_x - s_x/2, c_x + s_x/2, c_y - s_y/2, c_y + s_y/2, c_z - s_z/2, c_z + s_z/2)\<close>.
\<close>

theorem bbox_round_trip:
  assumes "0 \<le> sx" "0 \<le> sy" "0 \<le> sz"
  shows "bind (construct_bbox_corners [cx, cy, cz] [sx, sy, sz]) get_box3d_min_max
     = Inr (cx - sx / 2, cx + sx / 2, cy - sy / 2, cy + sy / 2, cz - sz / 2, cz + sz / 2)"
  using assms
  by (simp add: construct_bbox_corners_value get_box3d_min_max_def reduce_axis0_def
        index_row_def min_def max_def)

theorem bbox_round_trip_witness:
  "(0::real) \<le> 2 \<and> (0::real) \<le> 4 \<and> (0::real) \<le> 6
   \<and> bind (construct_bbox_corners [1, 2, 3] [2, 4, 6]) get_box3d_min_max
       = Inr (0, 2, 0, 4, 0, 6)"
  using bbox_round_trip [of 2 4 6 1 2 3] by simp

section \<open>Post-processing of the generated text\<close>

lemma split_from_hd:
  "sep \<noteq> [] \<Longrightarrow> \<exists>rest. split_from sep cur s = (cur @ truncate_at_first sep s) # rest"
proof (induction s arbitrary: cur)
  case Nil
  then show ?case by simp
next
  case (Cons c cs)
  show ?case
  proof (cases "prefix sep (c # cs)")
    case True
    then show ?thesis by simp
  next
    case False
    from Cons.IH [OF Cons.prems, of "cur @ [c]"] False show ?thesis by simp
  qed
qed

lemma py_split_first:
  assumes "sep \<noteq> []"
  shows "bind (py_split s sep) (\<lambda>parts. index_row parts 0) = Inr (truncate_at_first sep s)"
proof -
  from split_from_hd [OF assms, of "[]" s] obtain rest where
    "split_from sep [] s = truncate_at_first sep s # rest" by auto
  with assms show ?thesis by (simp add: py_split_def index_row_def)
qed

lemma prefix_pair: "prefix [a, b] (c # cs) = (c = a \<and> (\<exists>ds. cs = b # ds))"
  by (cases cs) auto

lemma replace_double_space:
  "replace_from [32, 32] [32] s = collapse_double_spaces s"
  by (induction s rule: collapse_double_spaces.induct) (auto simp: prefix_pair)

lemma replace_space_period:
  "replace_from [32, 46] [46] s = remove_space_before_period s"
  by (induction s rule: remove_space_before_period.induct) (auto simp: prefix_pair)

lemma of_ascii_literals:
  "of_ascii ''  '' = [32, 32]" "of_ascii '' '' = [32]" "of_ascii '' .'' = [32, 46]"
  "of_ascii ''.'' = [46]"
  by (simp_all add: of_ascii_def)

lemma py_strip_eq: "py_strip s = strip_whitespace s"
proof -
  let ?t = "dropWhile py_isspace s"
  let ?n = "length (takeWhile py_isspace (rev ?t))"
  have "dropWhile py_isspace (rev ?t) = drop ?n (rev ?t)"
    by (rule dropWhile_eq_drop)
  also have "\<dots> = rev (take (length ?t - ?n) ?t)" by (simp add: drop_rev)
  finally show ?thesis by (simp add: py_strip_def strip_whitespace_def Let_def)
qed

text \<open>
  What the steps of the specification mean: the truncated text is followed by the marker
  unless it is the whole text, and no occurrence of the marker starts earlier; the
  replacements are single passes from the left, so a run of three spaces keeps two.
\<close>

lemma truncate_at_first_cases:
  "truncate_at_first m s = s \<or> (\<exists>r. s = truncate_at_first m s @ m @ r)"
proof (induction s)
  case Nil
  then show ?case by simp
next
  case (Cons c cs)
  show ?case
  proof (cases "prefix m (c # cs)")
    case True
    then show ?thesis by (auto simp: prefix_def)
  next
    case False
    with Cons show ?thesis by auto
  qed
qed

lemma truncate_at_first_earliest:
  "s = p @ m @ r \<Longrightarrow> length (truncate_at_first m s) \<le> length p"
proof (induction s arbitrary: p)
  case Nil
  then show ?case by simp
next
  case (Cons c cs)
  show ?case
  proof (cases p)
    case Nil
    with Cons.prems have "prefix m (c # cs)" by (simp add: prefix_def)
    then show ?thesis by simp
  next
    case (Cons a p')
    with Cons.prems have "cs = p' @ m @ r" by simp
    from Cons.IH [OF this] Cons show ?thesis by simp
  qed
qed

lemma collapse_is_one_pass:
  "collapse_double_spaces [97, 32, 32, 32, 98] = [97, 32, 32, 98]"
  by simp


lemma demo_end_sym: "end_sym demo_model \<noteq> []"
  by (simp add: demo_model_def of_ascii_def)

lemma demo_post_value:
  "strip_whitespace (remove_space_before_period (collapse_double_spaces
     (truncate_at_first (of_ascii ''</s>'') (of_ascii ''  A  chair .</s> x''))))
   = of_ascii ''A chair.''"
  by (simp add: of_ascii_def strip_whitespace_def py_isspace_def)

text \<open>
  Claim C8. \<open>evaluate\<close> post-processes the decoded text by truncating it at the first
  occurrence of the end-of-turn marker \<open>end_sym\<close>, collapsing double spaces to single
  spaces, replacing " ." by ".", and stripping leading and trailing white space, in that
  order. (\<open>end_sym\<close> is not empty: Python's \<open>split\<close> raises on an empty separator.)
\<close>

theorem post_process_steps:
  assumes "end_sym self \<noteq> []"
  shows "post_process self output_text
     = Inr (strip_whitespace (remove_space_before_period (collapse_double_spaces
              (truncate_at_first (end_sym self) output_text))))"
proof -
  from split_from_hd [OF assms, of "[]" output_text] obtain rest where
    "split_from (end_sym self) [] output_text
       = truncate_at_first (end_sym self) output_text # rest" by auto
  with assms show ?thesis
    by (simp add: post_process_def py_split_def index_row_def py_replace_def of_ascii_literals
          replace_double_space replace_space_period py_strip_eq)
qed

theorem post_process_steps_witness:
  "end_sym demo_model \<noteq> []
   \<and> post_process demo_model (of_ascii ''  A  chair .</s> x'')
       = Inr (strip_whitespace (remove_space_before_period (collapse_double_spaces
                (truncate_at_first (end_sym demo_model) (of_ascii ''  A  chair .</s> x'')))))
   \<and> post_process demo_model (of_ascii ''  A  chair .</s> x'') = Inr (of_ascii ''A chair.'')"
  using post_process_steps [OF demo_end_sym, of "of_ascii ''  A  chair .</s> x''"]
    demo_end_sym demo_post_value
  by (simp add: demo_fields)

section \<open>Scene coordinate extents: minimum and maximum over the valid objects\<close>

lemma PInf_top [simp]: "x \<le> PInf"
  by (cases x) simp_all

lemma NInf_bot [simp]: "NInf \<le> x"
  by simp

lemma min_PInf [simp]: "min PInf x = x" "min x PInf = x"
  by (simp_all add: min_def antisym)

lemma max_NInf [simp]: "max NInf x = x" "max x NInf = x"
  by (simp_all add: max_def antisym)

lemma foldl_map2_length:
  "length p = D \<Longrightarrow> \<forall>q\<in>set ps. length q = D \<Longrightarrow> length (foldl (map2 f) p ps) = D"
  by (induction ps arbitrary: p) simp_all

lemma foldl_map2_nth:
  "length p = D \<Longrightarrow> \<forall>q\<in>set ps. length q = D \<Longrightarrow> c < D
    \<Longrightarrow> foldl (map2 f) p ps ! c = foldl f (p ! c) (map (\<lambda>q. q ! c) ps)"
  by (induction ps arbitrary: p) simp_all

lemma foldl_min_Min: "foldl min a ls = Min (set (a # ls))" for a :: "'a::linorder"
proof -
  have "foldl min a ls = fold min ls a"
    by (simp add: foldl_conv_fold min.commute)
  also have "\<dots> = Min (set (a # ls))" by (rule Min.set_eq_fold [symmetric])
  finally show ?thesis .
qed

lemma foldl_max_Max: "foldl max a ls = Max (set (a # ls))" for a :: "'a::linorder"
proof -
  have "foldl max a ls = fold max ls a"
    by (simp add: foldl_conv_fold max.commute)
  also have "\<dots> = Max (set (a # ls))" by (rule Max.set_eq_fold [symmetric])
  finally show ?thesis .
qed

lemma column_reduce_min:
  fixes pts :: "'a::linorder list list"
  assumes "pts \<noteq> []" "\<forall>q\<in>set pts. length q = D" "c < D"
  shows "foldl (map2 min) (hd pts) (tl pts) ! c = Min ((\<lambda>q. q ! c) ` set pts)"
    (is "?l = ?r")
proof -
  obtain p ps where pts: "pts = p # ps" using assms(1) by (cases pts) auto
  with assms have "?l = foldl min (p ! c) (map (\<lambda>q. q ! c) ps)"
    by (simp add: foldl_map2_nth [where D = D])
  also have "\<dots> = Min (set (p ! c # map (\<lambda>q. q ! c) ps))" by (rule foldl_min_Min)
  finally show ?thesis by (simp add: pts)
qed

lemma column_reduce_max:
  fixes pts :: "'a::linorder list list"
  assumes "pts \<noteq> []" "\<forall>q\<in>set pts. length q = D" "c < D"
  shows "foldl (map2 max) (hd pts) (tl pts) ! c = Max ((\<lambda>q. q ! c) ` set pts)"
    (is "?l = ?r")
proof -
  obtain p ps where pts: "pts = p # ps" using assms(1) by (cases pts) auto
  with assms have "?l = foldl max (p ! c) (map (\<lambda>q. q ! c) ps)"
    by (simp add: foldl_map2_nth [where D = D])
  also have "\<dots> = Max (set (p ! c # map (\<lambda>q. q ! c) ps))" by (rule foldl_max_Max)
  finally show ?thesis by (simp add: pts)
qed

lemma where_gt_0_facts:
  assumes "length m = length pts"
  shows "length (where_gt_0 m pts fill) = length pts"
    and "j < length pts \<Longrightarrow> where_gt_0 m pts fill ! j
           = map (\<lambda>x. if m ! j > 0 then x else fill) (pts ! j)"
  using assms by (simp_all add: where_gt_0_def)

lemma masked_column:
  assumes len: "length m = length pts" and D: "\<forall>q\<in>set pts. length q = D" and c: "c < D"
  shows "(\<lambda>q. q ! c) ` set (where_gt_0 m pts fill)
     = (\<lambda>j. if m ! j > 0 then pts ! j ! c else fill) ` {0..<length pts}"
proof -
  have "set (where_gt_0 m pts fill) = (!) (where_gt_0 m pts fill) ` {0..<length pts}"
    using nth_image [of "length pts" "where_gt_0 m pts fill"]
    by (simp add: where_gt_0_facts(1) [OF len])
  then have "(\<lambda>q. q ! c) ` set (where_gt_0 m pts fill)
     = (\<lambda>j. where_gt_0 m pts fill ! j ! c) ` {0..<length pts}"
    by (simp add: image_image)
  also have "\<dots> = (\<lambda>j. if m ! j > 0 then pts ! j ! c else fill) ` {0..<length pts}"
  proof (rule image_cong [OF refl])
    fix j assume "j \<in> {0..<length pts}"
    then have j: "j < length pts" by simp
    with D have "length (pts ! j) = D" by simp
    with c j show "where_gt_0 m pts fill ! j ! c = (if m ! j > 0 then pts ! j ! c else fill)"
      by (simp add: where_gt_0_facts(2) [OF len])
  qed
  finally show ?thesis .
qed

lemma insert_masked:
  "insert fill ((\<lambda>j. if m ! j > 0 then pts ! j ! c else fill) ` {0..<length pts})
     = insert fill (valid_values pts m c)"
  by (auto simp: valid_values_def)

lemma scene_min:
  assumes ne: "pts \<noteq> []" and len: "length m = length pts"
    and D: "\<forall>q\<in>set pts. length q = D" and c: "c < D"
  shows "foldl (map2 min) (hd (where_gt_0 m pts PInf)) (tl (where_gt_0 m pts PInf)) ! c
     = Min (insert PInf (valid_values pts m c))"
proof -
  let ?M = "where_gt_0 m pts PInf"
  let ?S = "(\<lambda>j. if m ! j > 0 then pts ! j ! c else PInf) ` {0..<length pts}"
  have Mne: "?M \<noteq> []" using ne where_gt_0_facts(1) [OF len, of PInf] by auto
  have MD: "\<forall>q\<in>set ?M. length q = D"
    using D len by (auto simp: where_gt_0_def set_zip)
  have "foldl (map2 min) (hd ?M) (tl ?M) ! c = Min ((\<lambda>q. q ! c) ` set ?M)"
    by (rule column_reduce_min [OF Mne MD c])
  also have "\<dots> = Min ?S" by (simp only: masked_column [OF len D c])
  also have "\<dots> = Min (insert PInf ?S)"
  proof -
    have f: "finite ?S" by (rule finite_imageI) simp
    from ne have "{0..<length pts} \<noteq> {}" by simp
    then have "?S \<noteq> {}" by blast
    with f show ?thesis by simp
  qed
  also have "\<dots> = Min (insert PInf (valid_values pts m c))" by (simp only: insert_masked)
  finally show ?thesis .
qed

lemma scene_max:
  assumes ne: "pts \<noteq> []" and len: "length m = length pts"
    and D: "\<forall>q\<in>set pts. length q = D" and c: "c < D"
  shows "foldl (map2 max) (hd (where_gt_0 m pts NInf)) (tl (where_gt_0 m pts NInf)) ! c
     = Max (insert NInf (valid_values pts m c))"
proof -
  let ?M = "where_gt_0 m pts NInf"
  let ?S = "(\<lambda>j. if m ! j > 0 then pts ! j ! c else NInf) ` {0..<length pts}"
  have Mne: "?M \<noteq> []" using ne where_gt_0_facts(1) [OF len, of NInf] by auto
  have MD: "\<forall>q\<in>set ?M. length q = D"
    using D len by (auto simp: where_gt_0_def set_zip)
  have "foldl (map2 max) (hd ?M) (tl ?M) ! c = Max ((\<lambda>q. q ! c) ` set ?M)"
    by (rule column_reduce_max [OF Mne MD c])
  also have "\<dots> = Max ?S" by (simp only: masked_column [OF len D c])
  also have "\<dots> = Max (insert NInf ?S)"
  proof -
    have f: "finite ?S" by (rule finite_imageI) simp
    from ne have "{0..<length pts} \<noteq> {}" by simp
    then have "?S \<noteq> {}" by blast
    with f show ?thesis by simp
  qed
  also have "\<dots> = Max (insert NInf (valid_values pts m c))" by (simp only: insert_masked)
  finally show ?thesis .
qed

lemma scene_length:
  assumes ne: "pts \<noteq> []" and len: "length m = length pts"
    and D: "\<forall>q\<in>set pts. length q = D"
  shows "length (foldl (map2 f) (hd (where_gt_0 m pts fill)) (tl (where_gt_0 m pts fill))) = D"
proof -
  let ?M = "where_gt_0 m pts fill"
  have Mne: "?M \<noteq> []" using ne where_gt_0_facts(1) [OF len, of fill] by auto
  have MD: "\<forall>q\<in>set ?M. length q = D"
    using D len by (auto simp: where_gt_0_def set_zip)
  from Mne MD have "length (hd ?M) = D" "\<forall>q\<in>set (tl ?M). length q = D"
    by (auto dest: list.set_sel(2))
  then show ?thesis by (rule foldl_map2_length)
qed


lemma expand_dim_same: "length t = n \<Longrightarrow> expand_dim t n = Inr t"
  by (simp add: expand_dim_def)

lemma map_err_Inr: "\<forall>x\<in>set xs. f x = Inr (g x) \<Longrightarrow> map_err f xs = Inr (map g xs)"
  by (induction xs) simp_all

lemma reduce_dim_Inr: "M \<noteq> [] \<Longrightarrow> reduce_dim f M = Inr (foldl (map2 f) (hd M) (tl M))"
  by (cases M) (simp_all add: reduce_dim_def)

lemma get_min_max_coord_value:
  assumes ws: "well_shaped xyz scene_mask D"
  shows "get_min_max_coord xyz scene_mask =
     Inr (map (\<lambda>b. foldl (map2 min) (hd (where_gt_0 (scene_mask ! b) (xyz ! b) PInf))
                       (tl (where_gt_0 (scene_mask ! b) (xyz ! b) PInf))) [0..<length xyz],
          map (\<lambda>b. foldl (map2 max) (hd (where_gt_0 (scene_mask ! b) (xyz ! b) NInf))
                       (tl (where_gt_0 (scene_mask ! b) (xyz ! b) NInf))) [0..<length xyz])"
proof -
  from ws have len: "length scene_mask = length xyz"
    and sc: "\<And>b. b < length xyz \<Longrightarrow> xyz ! b \<noteq> [] \<and> length (scene_mask ! b) = length (xyz ! b)"
    by (simp_all add: well_shaped_def)
  have 1: "expand_dim scene_mask (length xyz) = Inr scene_mask"
    using len by (rule expand_dim_same)
  have "\<forall>x\<in>set (zip xyz scene_mask). (\<lambda>(pts, m). expand_dim m (length pts)) x = Inr (snd x)"
    using sc by (auto simp: in_set_zip expand_dim_same)
  then have "map_err (\<lambda>(pts, m). expand_dim m (length pts)) (zip xyz scene_mask)
     = Inr (map snd (zip xyz scene_mask))"
    by (rule map_err_Inr)
  then have 2: "map_err (\<lambda>(pts, m). expand_dim m (length pts)) (zip xyz scene_mask)
     = Inr scene_mask"
    using len by (simp add: map_snd_zip)
  have ne: "where_gt_0 m pts fill \<noteq> []" if "(pts, m) \<in> set (zip xyz scene_mask)" for pts m fill
  proof -
    from that obtain b where "b < length xyz" "pts = xyz ! b" "m = scene_mask ! b"
      by (auto simp: in_set_zip)
    with sc [of b] have "pts \<noteq> []" "length m = length pts" by simp_all
    with where_gt_0_facts(1) [of m pts fill] show ?thesis by auto
  qed
  have 3: "map_err (reduce_dim f) (map2 (\<lambda>pts m. where_gt_0 m pts fill) xyz scene_mask)
     = Inr (map (\<lambda>M. foldl (map2 f) (hd M) (tl M))
              (map2 (\<lambda>pts m. where_gt_0 m pts fill) xyz scene_mask))" for f fill
    by (rule map_err_Inr) (auto simp: reduce_dim_Inr ne)
  have 4: "map (\<lambda>M. foldl (map2 f) (hd M) (tl M))
              (map2 (\<lambda>pts m. where_gt_0 m pts fill) xyz scene_mask)
     = map (\<lambda>b. foldl (map2 f) (hd (where_gt_0 (scene_mask ! b) (xyz ! b) fill))
                       (tl (where_gt_0 (scene_mask ! b) (xyz ! b) fill))) [0..<length xyz]"
    for f fill
    using len by (intro nth_equalityI) simp_all
  have 5: "map_err (reduce_dim f) (map2 (\<lambda>pts m. where_gt_0 m pts fill) xyz scene_mask)
     = Inr (map (\<lambda>b. foldl (map2 f) (hd (where_gt_0 (scene_mask ! b) (xyz ! b) fill))
                       (tl (where_gt_0 (scene_mask ! b) (xyz ! b) fill))) [0..<length xyz])"
    for f fill
    by (simp only: 3 4)
  show ?thesis
    unfolding get_min_max_coord_def 1 2 bind_Inr Let_def 5 by (rule refl)
qed

lemma demo_well_shaped: "well_shaped demo_xyz demo_scene_mask 3"
  by (auto simp: well_shaped_def demo_xyz_def demo_scene_mask_def less_Suc_eq)

lemma demo_min_max:
  "get_min_max_coord demo_xyz demo_scene_mask
     = Inr ([[Fin 1, Fin 5, Fin 0], [PInf, PInf, PInf]],
            [[Fin 1, Fin 5, Fin 0], [NInf, NInf, NInf]])"
  by (simp add: get_min_max_coord_def demo_xyz_def demo_scene_mask_def expand_dim_def
        where_gt_0_def reduce_dim_def)

text \<open>
  Claim C6, as amended. For every batch of per-object coordinates and validity mask in
  which every scene has at least one object slot, \<open>get_min_max_coord\<close> returns, per scene
  and per component, the minimum and the maximum over the valid objects only (the minimum
  of the valid coordinates and \<open>+\<infinity>\<close>, the maximum of the valid coordinates and \<open>-\<infinity>\<close>, which
  is what substituting the infinities at the invalid slots computes); a scene with slots
  but no valid object yields \<open>(+\<infinity>, -\<infinity>)\<close> per component and no error. (As stated, for
  every batch, the claim fails: for a scene without any slot the reduction raises.)
\<close>

theorem min_max_over_valid:
  assumes ws: "well_shaped xyz scene_mask D"
  shows "\<exists>mins maxs. get_min_max_coord xyz scene_mask = Inr (mins, maxs)
     \<and> length mins = length xyz \<and> length maxs = length xyz
     \<and> (\<forall>b<length xyz. length (mins ! b) = D \<and> length (maxs ! b) = D
          \<and> (\<forall>c<D.
                mins ! b ! c = Min (insert PInf (valid_values (xyz ! b) (scene_mask ! b) c))
              \<and> maxs ! b ! c = Max (insert NInf (valid_values (xyz ! b) (scene_mask ! b) c))
              \<and> ((\<forall>j<length (xyz ! b). \<not> scene_mask ! b ! j > 0)
                   \<longrightarrow> mins ! b ! c = PInf \<and> maxs ! b ! c = NInf)))"
proof -
  from ws have sc: "xyz ! b \<noteq> []" "length (scene_mask ! b) = length (xyz ! b)"
      "\<forall>p\<in>set (xyz ! b). length p = D" if "b < length xyz" for b
    using that by (simp_all add: well_shaped_def)
  have none: "valid_values (xyz ! b) (scene_mask ! b) c = {}"
    if "\<forall>j<length (xyz ! b). \<not> scene_mask ! b ! j > 0" for b c
    using that by (auto simp: valid_values_def)
  have mn: "foldl (map2 min) (hd (where_gt_0 (scene_mask ! b) (xyz ! b) PInf))
               (tl (where_gt_0 (scene_mask ! b) (xyz ! b) PInf)) ! c
      = Min (insert PInf (valid_values (xyz ! b) (scene_mask ! b) c))"
    if "b < length xyz" "c < D" for b c
    using sc [OF that(1)] that(2) by (rule scene_min)
  have mx: "foldl (map2 max) (hd (where_gt_0 (scene_mask ! b) (xyz ! b) NInf))
               (tl (where_gt_0 (scene_mask ! b) (xyz ! b) NInf)) ! c
      = Max (insert NInf (valid_values (xyz ! b) (scene_mask ! b) c))"
    if "b < length xyz" "c < D" for b c
    using sc [OF that(1)] that(2) by (rule scene_max)
  have ln: "length (foldl (map2 f) (hd (where_gt_0 (scene_mask ! b) (xyz ! b) fill))
               (tl (where_gt_0 (scene_mask ! b) (xyz ! b) fill))) = D"
    if "b < length xyz" for b f fill
    using sc [OF that] by (rule scene_length)
  show ?thesis
    unfolding get_min_max_coord_value [OF ws]
    by (auto simp: mn mx ln none)
qed

theorem min_max_over_valid_witness:
  "well_shaped demo_xyz demo_scene_mask 3
   \<and> get_min_max_coord demo_xyz demo_scene_mask
       = Inr ([[Fin 1, Fin 5, Fin 0], [PInf, PInf, PInf]],
              [[Fin 1, Fin 5, Fin 0], [NInf, NInf, NInf]])
   \<and> (\<exists>mins maxs. get_min_max_coord demo_xyz demo_scene_mask = Inr (mins, maxs)
     \<and> length mins = length demo_xyz \<and> length maxs = length demo_xyz
     \<and> (\<forall>b<length demo_xyz. length (mins ! b) = 3 \<and> length (maxs ! b) = 3
          \<and> (\<forall>c<3.
                mins ! b ! c
                  = Min (insert PInf (valid_values (demo_xyz ! b) (demo_scene_mask ! b) c))
              \<and> maxs ! b ! c
                  = Max (insert NInf (valid_values (demo_xyz ! b) (demo_scene_mask ! b) c))
              \<and> ((\<forall>j<length (demo_xyz ! b). \<not> demo_scene_mask ! b ! j > 0)
                   \<longrightarrow> mins ! b ! c = PInf \<and> maxs ! b ! c = NInf))))"
  by (intro conjI demo_well_shaped demo_min_max min_max_over_valid [OF demo_well_shaped])

theorem min_max_no_slot_counterexample:
  "get_min_max_coord [[]] [[]] = Inl IndexError"
  by (simp add: get_min_max_coord_def expand_dim_def where_gt_0_def reduce_dim_def)

end
